theory Spec2Isabelle
  imports Main "HOL-Library.AList"
begin

section \<open>Gateway session (class QQBot)\<close>

text \<open>
  Inbound frames are the JSON objects of the gateway wire protocol, already decoded and
  typed as the protocol types them: \<open>op\<close> and \<open>s\<close> are integers, \<open>t\<close> a string, \<open>d\<close> an
  object. An absent or \<open>null\<close> field is \<open>None\<close>. A frame whose text \<open>JSON.parse\<close> rejects is
  \<open>None\<close> as a whole. JavaScript numbers are modelled as \<open>int\<close> (sequence numbers stay far
  below \<open>2^53\<close>).
\<close>

record payload =
  d_content :: "string option"
  d_id :: "string option"
  d_group_openid :: "string option"
  d_author_id :: "string option"
  d_heartbeat_interval :: "int option"
  d_session_id :: "string option"

record event =
  ev_op :: "int option"
  ev_s :: "int option"
  ev_t :: "string option"
  ev_d :: "payload option"

text \<open>Outbound control frames, by opcode: 1 heartbeat, 2 identify, 6 resume.\<close>

datatype frame =
    Heartbeat "int option"
  | Identify string int "int list"
  | Resume string "string option" int

text \<open>
  The socket of the \<open>ws\<close> package as the bot uses it: its ready state, whether the bot's
  listeners are attached, and the frames written to it. \<open>send\<close> throws while the socket
  is still connecting and writes only to an open socket.
\<close>

datatype ready_state = CONNECTING | OPEN | CLOSING | CLOSED

record socket =
  sock_url :: string
  readyState :: ready_state
  listening :: bool
  sent :: "frame list"

definition ws_send :: "frame \<Rightarrow> socket \<Rightarrow> socket option" where
  "ws_send f k =
     (if readyState k = CONNECTING then None
      else if readyState k = OPEN then Some (k\<lparr>sent := sent k @ [f]\<rparr>)
      else Some k)"

text \<open>The four arguments of one \<open>processMessages\<close> call made by \<open>handleMessage\<close>.\<close>

record inbound =
  in_msg :: string
  in_id :: "string option"
  in_group_id :: "string option"
  in_sender_openid :: "string option"

text \<open>
  The fields of \<open>QQBot\<close>. A timer field holds the delay of the timer it refers to, or
  \<open>None\<close> for \<open>null\<close>. \<open>reconnects\<close> lists the delays of the \<open>setTimeout\<close> callbacks that
  \<open>safeResetConnection\<close> has scheduled (no field keeps them, nothing cancels them);
  \<open>forwarded\<close> lists the \<open>processMessages\<close> calls made so far.
\<close>

record qqbot =
  heartbeat_interval :: int
  expires_in :: int
  session_id :: "string option"
  seq :: int
  restoreLink :: bool
  accessToken :: "string option"
  isConnecting :: bool
  isShuttingDown :: bool
  heartbeatTimer :: "int option"
  tokenRefreshTimer :: "int option"
  connectionResetTimer :: "int option"
  ws :: "socket option"
  reconnects :: "int list"
  forwarded :: "inbound list"

definition new_QQBot :: qqbot where
  "new_QQBot =
     \<lparr>heartbeat_interval = 0, expires_in = 0, session_id = None, seq = 0,
      restoreLink = False, accessToken = None, isConnecting = False,
      isShuttingDown = False, heartbeatTimer = None, tokenRefreshTimer = None,
      connectionResetTimer = None, ws = None, reconnects = [], forwarded = []\<rparr>"

text \<open>\<open>this.ws.send(...)\<close>: a \<open>TypeError\<close> when \<open>ws\<close> is \<open>null\<close>. \<open>None\<close> is the throw.\<close>

definition send :: "frame \<Rightarrow> qqbot \<Rightarrow> qqbot option" where
  "send f b =
     (case ws b of
        None \<Rightarrow> None
      | Some k \<Rightarrow> map_option (\<lambda>k'. b\<lparr>ws := Some k'\<rparr>) (ws_send f k))"

text \<open>
  \<open>cleanupResources\<close> clears the three timers, detaches the listeners of the socket,
  closes it when open and drops it. The state keeps no reference to a dropped socket,
  so detaching and closing it leave no trace here: no event of it reaches the bot again.
\<close>

definition cleanupResources :: "qqbot \<Rightarrow> qqbot" where
  "cleanupResources b =
     b\<lparr>heartbeatTimer := None, tokenRefreshTimer := None,
       connectionResetTimer := None, ws := None\<rparr>"

definition safeResetConnection :: "int \<Rightarrow> qqbot \<Rightarrow> qqbot" where
  "safeResetConnection delay b =
     (if isShuttingDown b then b
      else (cleanupResources b)\<lparr>reconnects := reconnects b @ [delay]\<rparr>)"

text \<open>\<open>`QQBot ${this.accessToken}`\<close>; a \<open>null\<close> token prints as \<open>null\<close>.\<close>

definition bearer :: "qqbot \<Rightarrow> string" where
  "bearer b = ''QQBot '' @ (case accessToken b of None \<Rightarrow> ''null'' | Some a \<Rightarrow> a)"

definition intents :: int where
  "intents = or 0 (push_bit 25 1)"

definition sendSession :: "string \<Rightarrow> qqbot \<Rightarrow> qqbot option" where
  "sendSession token b = send (Identify token intents [0, 1]) b"

text \<open>
  \<open>handleOpen\<close> is a socket listener: an exception that escapes it reaches the
  \<open>uncaughtException\<close> hook of the constructor, which calls \<open>safeResetConnection()\<close>.
\<close>

definition handleOpen :: "qqbot \<Rightarrow> qqbot" where
  "handleOpen b =
     (if restoreLink b then
        (case send (Resume (bearer b) (session_id b) (seq b + 1)) b of
           None \<Rightarrow> safeResetConnection 0 b
         | Some b' \<Rightarrow> b'\<lparr>restoreLink := False\<rparr>)
      else
        (case sendSession (bearer b) b of
           None \<Rightarrow> safeResetConnection 0 b
         | Some b' \<Rightarrow> b'))"

definition sendHeartbeat :: "qqbot \<Rightarrow> qqbot option" where
  "sendHeartbeat b =
     map_option (\<lambda>b'. b'\<lparr>heartbeatTimer := Some (heartbeat_interval b')\<rparr>)
       (send (Heartbeat None) b)"

text \<open>The callback of the heartbeat interval.\<close>

definition heartbeatTick :: "qqbot \<Rightarrow> qqbot option" where
  "heartbeatTick b = send (Heartbeat (Some (seq b))) b"

text \<open>
  The sections of \<open>handleMessage\<close>, in source order. JavaScript truthiness: a string
  is truthy when non-empty, a number when non-zero.
\<close>

definition forwardContent :: "event \<Rightarrow> qqbot \<Rightarrow> qqbot" where
  "forwardContent ev b =
     (case ev_d ev of
        None \<Rightarrow> b
      | Some p \<Rightarrow>
          (case d_content p of
             None \<Rightarrow> b
           | Some c \<Rightarrow>
               if c = [] then b
               else b\<lparr>forwarded := forwarded b @
                      [\<lparr>in_msg = c, in_id = d_id p, in_group_id = d_group_openid p,
                        in_sender_openid = d_author_id p\<rparr>]\<rparr>))"

definition updateHeartbeat :: "event \<Rightarrow> qqbot \<Rightarrow> qqbot" where
  "updateHeartbeat ev b =
     (case ev_d ev of
        None \<Rightarrow> b
      | Some p \<Rightarrow>
          (case d_heartbeat_interval p of
             None \<Rightarrow> b
           | Some h \<Rightarrow> if h = 0 then b else b\<lparr>heartbeat_interval := h\<rparr>))"

definition updateSeq :: "event \<Rightarrow> qqbot \<Rightarrow> qqbot" where
  "updateSeq ev b =
     (case ev_s ev of
        None \<Rightarrow> b
      | Some n \<Rightarrow> if n = 0 then b else b\<lparr>seq := n\<rparr>)"

text \<open>
  The \<open>READY\<close> section: \<open>Inl\<close> is a throw (\<open>ev.d\<close> absent, or \<open>send\<close> threw), with the
  state as it was when the exception left the section.
\<close>

definition onReady :: "event \<Rightarrow> qqbot \<Rightarrow> qqbot + qqbot" where
  "onReady ev b =
     (if ev_t ev = Some ''READY'' then
        (case ev_d ev of
           None \<Rightarrow> Inl b
         | Some p \<Rightarrow>
             (let b1 = b\<lparr>session_id := d_session_id p\<rparr>
              in case sendHeartbeat b1 of None \<Rightarrow> Inl b1 | Some b2 \<Rightarrow> Inr b2))
      else Inr b)"

definition onReconnect :: "event \<Rightarrow> qqbot \<Rightarrow> qqbot" where
  "onReconnect ev b =
     (if ev_op ev = Some 7 \<or> ev_op ev = Some 9 then safeResetConnection 0 b else b)"

definition handleMessage :: "event option \<Rightarrow> qqbot \<Rightarrow> qqbot" where
  "handleMessage data b =
     (case data of
        None \<Rightarrow> b
      | Some ev \<Rightarrow>
          (case onReady ev (updateSeq ev (updateHeartbeat ev (forwardContent ev b))) of
             Inl b' \<Rightarrow> b'
           | Inr b' \<Rightarrow> onReconnect ev b'))"

definition handleClose :: "qqbot \<Rightarrow> qqbot" where
  "handleClose b = safeResetConnection 3000 b"

definition handleError :: "qqbot \<Rightarrow> qqbot" where
  "handleError b = safeResetConnection 5000 b"

text \<open>
  What the REST collaborator and the file watcher answer during one \<open>init\<close>:
  \<open>getAccessToken\<close> (\<open>access_token\<close>, \<open>expires_in\<close>), \<open>getWsLink\<close> (\<open>url\<close>); \<open>None\<close> is a
  rejected promise. \<open>loadPlugins\<close> catches everything it raises; \<open>startWatching\<close> can
  throw (\<open>fs.watch\<close>), which \<open>watch_ok\<close> records. Both act on the plugin manager only.
\<close>

record connect_env =
  watch_ok :: bool
  token_response :: "(string \<times> int) option"
  wslink_response :: "string option"

definition anewGetAccessToken :: "connect_env \<Rightarrow> qqbot \<Rightarrow> qqbot + qqbot" where
  "anewGetAccessToken env b =
     (case token_response env of
        None \<Rightarrow> Inl b
      | Some (tok, e) \<Rightarrow>
          Inr (b\<lparr>accessToken := Some tok, expires_in := e * 1000,
                 tokenRefreshTimer := Some (e * 1000 - 60000)\<rparr>))"

text \<open>
  \<open>setupConnection\<close> drops the socket it finds in the same way before it opens the new
  one.
\<close>

definition setupConnection :: "connect_env \<Rightarrow> qqbot \<Rightarrow> qqbot + qqbot" where
  "setupConnection env b =
     (case anewGetAccessToken env b of
        Inl b1 \<Rightarrow> Inl b1
      | Inr b1 \<Rightarrow>
          (case wslink_response env of
             None \<Rightarrow> Inl b1
           | Some u \<Rightarrow>
               Inr (b1\<lparr>ws := Some \<lparr>sock_url = u, readyState = CONNECTING,
                                     listening = True, sent = []\<rparr>\<rparr>)))"

definition scheduleConnectionReset :: "qqbot \<Rightarrow> qqbot" where
  "scheduleConnectionReset b = b\<lparr>connectionResetTimer := Some (60 * 60 * 1000)\<rparr>"

definition init :: "connect_env \<Rightarrow> qqbot \<Rightarrow> qqbot" where
  "init env b =
     (if isConnecting b then b
      else
        (let b1 = b\<lparr>isConnecting := True\<rparr>;
             b2 = (if \<not> watch_ok env then safeResetConnection 5000 b1
                   else case setupConnection env b1 of
                          Inl b' \<Rightarrow> safeResetConnection 5000 b'
                        | Inr b' \<Rightarrow> scheduleConnectionReset b')
         in b2\<lparr>isConnecting := False\<rparr>))"

text \<open>
  The callback that \<open>safeResetConnection\<close> hands to \<open>setTimeout\<close>: it takes the oldest
  pending reconnect off the list, sets \<open>restoreLink\<close> and runs \<open>init\<close>. (\<open>init\<close> catches
  what its body raises, so the \<open>catch\<close> attached to its promise here has nothing to
  handle.)
\<close>

definition reconnectFire :: "connect_env \<Rightarrow> qqbot \<Rightarrow> qqbot" where
  "reconnectFire env b = init env (b\<lparr>reconnects := tl (reconnects b), restoreLink := True\<rparr>)"

text \<open>The socket reports \<open>open\<close>: its state changes and the listener runs.\<close>

definition socketOpened :: "qqbot \<Rightarrow> qqbot" where
  "socketOpened b =
     (case ws b of
        None \<Rightarrow> b
      | Some k \<Rightarrow>
          if listening k then handleOpen (b\<lparr>ws := Some (k\<lparr>readyState := OPEN\<rparr>)\<rparr>) else b)"

text \<open>Frames processed in arrival order.\<close>

definition handleMessages :: "event option list \<Rightarrow> qqbot \<Rightarrow> qqbot" where
  "handleMessages frames b = foldl (\<lambda>b' data. handleMessage data b') b frames"

text \<open>The frames written to the current socket.\<close>

definition wire :: "qqbot \<Rightarrow> frame list" where
  "wire b = (case ws b of None \<Rightarrow> [] | Some k \<Rightarrow> sent k)"

section \<open>Plugin registry (class PluginManager)\<close>

subsection \<open>Plugins\<close>

text \<open>
  What \<open>await plugin.main(...)\<close> resolves to: \<open>null\<close> or \<open>undefined\<close>, a string, or an
  object with optional \<open>text\<close> and \<open>image\<close> (a URL or a buffer).
\<close>

datatype image = ImageUrl string | ImageBuffer "nat list"

datatype retMsg = Null | Text string | Reply "string option" "image option"

text \<open>
  A handler is given \<open>(msgType, msgContent, senderOpenid, isPrivate)\<close>; \<open>None\<close> is a
  synchronous throw or a rejected promise. An optional hook either completes or fails
  when awaited. A plugin object: the name it is exported under, and its three members
  (\<open>None\<close> when the member is not a function).
\<close>

type_synonym handler = "string \<Rightarrow> string \<Rightarrow> string option \<Rightarrow> bool \<Rightarrow> retMsg option"

datatype hook = Completes | Fails

record plugin =
  p_name :: string
  p_main :: "handler option"
  p_init :: "hook option"
  p_cleanup :: "hook option"

text \<open>
  The fields of \<open>PluginManager\<close>. \<open>plugins\<close> is a JavaScript \<open>Map\<close>: unique keys, kept
  in the order of their first insertion. \<open>reloadDebounce\<close> holds the deadline (ms) of the
  timer it refers to while that timer is pending, and \<open>None\<close> when the field is \<open>null\<close> or
  its timer has fired (\<open>clearTimeout\<close> of a fired timer does nothing).
\<close>

record manager =
  plugins :: "(string \<times> plugin) list"
  defaultPlugin :: "plugin option"
  isLoading :: bool
  watcher :: bool
  reloadDebounce :: "nat option"

definition new_PluginManager :: manager where
  "new_PluginManager =
     \<lparr>plugins = [], defaultPlugin = None, isLoading = False, watcher = False,
      reloadDebounce = None\<rparr>"

text \<open>
  What the manager awaits: a plugin's hook or handler, with the arguments it passes.
  A trace pairs each awaited call with the manager as it stands while the call is
  pending, which is what any other task of the event loop (a dispatch, another load)
  finds if it runs before the call settles.
\<close>

datatype activity =
    InitHook plugin
  | CleanupHook plugin
  | MainCall plugin string string "string option" bool

type_synonym trace = "(activity \<times> manager) list"

subsection \<open>Dispatch\<close>

text \<open>
  The reply of line 854, a non-empty string literal of six CJK characters
  (U+63D2 U+4EF6 U+5904 U+7406 U+51FA U+9519, "plugin processing failed"); the model
  writes it in ASCII.
\<close>

definition plugin_error :: string where
  "plugin_error = ''plugin processing failed''"

definition invoke :: "plugin \<Rightarrow> string \<Rightarrow> string \<Rightarrow> string option \<Rightarrow> bool \<Rightarrow> retMsg option" where
  "invoke p msgType msgContent senderOpenid isPrivate =
     (case p_main p of
        None \<Rightarrow> None
      | Some h \<Rightarrow> h msgType msgContent senderOpenid isPrivate)"

definition processMessage ::
  "manager \<Rightarrow> string \<Rightarrow> string \<Rightarrow> string option \<Rightarrow> bool \<Rightarrow> activity list \<times> retMsg" where
  "processMessage m msgType msgContent senderOpenid isPrivate =
     (case map_of (plugins m) msgType of
        Some plugin \<Rightarrow>
          ([MainCall plugin msgType msgContent senderOpenid isPrivate],
           case invoke plugin msgType msgContent senderOpenid isPrivate of
             Some r \<Rightarrow> r
           | None \<Rightarrow> Text plugin_error)
      | None \<Rightarrow>
          (case defaultPlugin m of
             Some d \<Rightarrow>
               ([MainCall d msgType msgContent senderOpenid isPrivate],
                case invoke d msgType msgContent senderOpenid isPrivate of
                  Some r \<Rightarrow> r
                | None \<Rightarrow> Null)
           | None \<Rightarrow> ([], Null)))"

text \<open>
  \<open>processMessages\<close> up to the dispatch (lines 1214 to 1235): the calls the dispatch
  made and the reply it gave (\<open>retMsg\<close>), or no call and \<open>Null\<close> when the text does not
  parse. Sending the reply, which follows, is left out. Strings are sequences of code
  units; of the units below 256, \<open>\s\<close> and \<open>trim\<close> match these seven.
\<close>

definition js_space :: "char \<Rightarrow> bool" where
  "js_space c \<longleftrightarrow>
     c \<in> set [CHR 0x09, CHR 0x0A, CHR 0x0B, CHR 0x0C, CHR 0x0D, CHR 0x20, CHR 0xA0]"

definition trim :: "string \<Rightarrow> string" where
  "trim x = rev (dropWhile js_space (rev (dropWhile js_space x)))"

definition parseMessage :: "string \<Rightarrow> (string \<times> string) option" where
  "parseMessage msg =
     (let trimmed = dropWhile js_space msg
      in if trimmed = [] then None
         else Some (takeWhile (\<lambda>c. \<not> js_space c) trimmed,
                    trim (dropWhile (\<lambda>c. \<not> js_space c) trimmed)))"

definition processMessages :: "manager \<Rightarrow> inbound \<Rightarrow> activity list \<times> retMsg" where
  "processMessages m i =
     (let isPrivate = (in_group_id i = None \<or> in_group_id i = Some [])
      in case parseMessage (in_msg i) of
           None \<Rightarrow> ([], Null)
         | Some (msgType, msgContent) \<Rightarrow>
             processMessage m msgType msgContent (in_sender_openid i) isPrivate)"

subsection \<open>Cleanup\<close>

definition cleanupPlugin :: "manager \<Rightarrow> plugin \<Rightarrow> trace" where
  "cleanupPlugin m p = (case p_cleanup p of None \<Rightarrow> [] | Some h \<Rightarrow> [(CleanupHook p, m)])"

definition cleanup :: "manager \<Rightarrow> trace" where
  "cleanup m =
     concat (map (\<lambda>(type, p). cleanupPlugin m p) (plugins m)) @
     (case defaultPlugin m of None \<Rightarrow> [] | Some d \<Rightarrow> cleanupPlugin m d)"

subsection \<open>The plugin root on disk\<close>

text \<open>
  A manifest as the loader reads it: \<open>name\<close> and \<open>processingTypes\<close> (\<open>None\<close> when the
  field is no array, so that \<open>forEach\<close> throws). A plugin directory as the loader sees it:
  whether it holds nothing at all, whether \<open>manifest.json\<close> exists, what
  \<open>require(manifestPath)\<close> returns, and what \<open>require(pluginPath)\<close> returns for the path
  the manifest names, an export object from names to plugin objects; \<open>None\<close> is a throw.
\<close>

record manifest =
  m_name :: string
  processingTypes :: "string list option"

record plugin_dir =
  dir_empty :: bool
  manifest_exists :: bool
  manifest_json :: "manifest option"
  pluginModule :: "(string \<Rightarrow> plugin option) option"

text \<open>
  An archive as \<open>adm-zip\<close> reads it: its entries, and the content \<open>extractAllTo\<close> gives
  the top-level directory of a given name, from the content that directory had before
  (\<open>None\<close> when it did not exist).
\<close>

record zip_entry =
  entryName :: string
  isDirectory :: bool

record archive =
  entries :: "zip_entry list"
  unpack :: "string \<Rightarrow> plugin_dir option \<Rightarrow> plugin_dir"

text \<open>
  The plugin root: what each name in it is, a plain file, a directory or a readable
  archive (\<open>new AdmZip\<close> throws on the other two). The root has no order of its own: the
  order in which \<open>readdirSync\<close> lists the names of a root is the operating system's, and
  every function that lists the root takes it as the argument \<open>readdir\<close>. The root itself
  may be missing (\<open>None\<close>).
\<close>

datatype node = File | Directory plugin_dir | Archive archive

type_synonym folder = "string \<Rightarrow> node option"

definition endsWith :: "string \<Rightarrow> string \<Rightarrow> bool" where
  "endsWith x suffix \<longleftrightarrow> take (length suffix) (rev x) = rev suffix"

definition existsSync :: "folder \<Rightarrow> string \<Rightarrow> bool" where
  "existsSync l n \<longleftrightarrow> l n \<noteq> None"

text \<open>
  \<open>renameSync\<close>, as \<open>rename(2)\<close> of the Linux image the bot runs in; \<open>None\<close> is a throw.
  The source must exist. Renaming a name to itself does nothing. A destination that
  exists is replaced when both are no directories, or when the source is a directory and
  the destination an empty one; otherwise the call throws and nothing changes.
\<close>

definition replaceable :: "node \<Rightarrow> node option \<Rightarrow> bool" where
  "replaceable src dst =
     (case dst of
        None \<Rightarrow> True
      | Some (Directory c') \<Rightarrow> (case src of Directory c \<Rightarrow> dir_empty c' | _ \<Rightarrow> False)
      | Some other \<Rightarrow> (case src of Directory c \<Rightarrow> False | _ \<Rightarrow> True))"

definition renameSync :: "string \<Rightarrow> string \<Rightarrow> folder \<Rightarrow> folder option" where
  "renameSync a b l =
     (case l a of
        None \<Rightarrow> None
      | Some nd \<Rightarrow>
          if a = b then Some l
          else if replaceable nd (l b) then Some ((l(a := None))(b \<mapsto> nd)) else None)"

text \<open>\<open>unlinkSync\<close>; it throws on a missing name and on a directory.\<close>

definition unlinkSync :: "string \<Rightarrow> folder \<Rightarrow> folder option" where
  "unlinkSync n l =
     (case l n of
        None \<Rightarrow> None
      | Some (Directory c) \<Rightarrow> None
      | Some nd \<Rightarrow> Some (l(n := None)))"

text \<open>
  \<open>extractAllTo(pluginDir, true)\<close>, seen on the root: every entry is written below the
  first segment of its path, so each such segment becomes a name of the root, a
  directory when some entry lies inside it or is that directory, a plain file otherwise.
  What was under such a name is overwritten (a directory is merged into).
\<close>

definition firstSegment :: "string \<Rightarrow> string" where
  "firstSegment x = takeWhile (\<lambda>c. c \<noteq> CHR ''/'') x"

definition setAdd :: "string list \<Rightarrow> string \<Rightarrow> string list" where
  "setAdd xs x = (if x \<in> set xs then xs else xs @ [x])"

definition written :: "archive \<Rightarrow> string \<Rightarrow> node option \<Rightarrow> node" where
  "written z n before =
     (if \<exists>e \<in> set (entries z).
           firstSegment (entryName e) = n \<and>
           (isDirectory e \<or> CHR ''/'' \<in> set (entryName e))
      then Directory (unpack z n (case before of Some (Directory c) \<Rightarrow> Some c | _ \<Rightarrow> None))
      else File)"

definition extractTop :: "archive \<Rightarrow> folder \<Rightarrow> string \<Rightarrow> folder" where
  "extractTop z l n = l(n \<mapsto> written z n (l n))"

definition extractAllTo :: "archive \<Rightarrow> folder \<Rightarrow> folder" where
  "extractAllTo z l =
     foldl (extractTop z) l
       (foldl setAdd [] (map (\<lambda>e. firstSegment (entryName e)) (entries z)))"

text \<open>\<open>Date.now()\<close> printed in a template string.\<close>

fun decimal :: "nat \<Rightarrow> string" where
  "decimal n =
     (if n < 10 then [''0123456789'' ! n]
      else decimal (n div 10) @ [''0123456789'' ! (n mod 10)])"

declare decimal.simps [simp del]

subsection \<open>Discover and stage (extractPlugins)\<close>

text \<open>
  \<open>topLevelDirs\<close> is a \<open>Set\<close> filled by \<open>forEach\<close> (\<open>setAdd\<close> is its \<open>add\<close>): the first
  path segments of the entries that are no directories and have more than one segment,
  in order of first insertion.
\<close>

definition topLevelDirs :: "zip_entry list \<Rightarrow> string list" where
  "topLevelDirs es =
     foldl setAdd []
       (map (\<lambda>e. firstSegment (entryName e))
          (filter (\<lambda>e. \<not> isDirectory e \<and> CHR ''/'' \<in> set (entryName e)) es))"

text \<open>
  The body of the loop over the archives (lines 657 to 697), with the clock reading
  \<open>now\<close>. Whatever throws inside is caught there, and the root stays as the steps before
  the throw left it.
\<close>

definition extractZip :: "nat \<Rightarrow> folder \<Rightarrow> string \<Rightarrow> folder" where
  "extractZip now l zipFile =
     (case l zipFile of
        Some (Archive z) \<Rightarrow>
          (let dirs = topLevelDirs (entries z)
           in if length dirs \<noteq> 1 then l
              else
                (let pluginDirName = hd dirs;
                     backed =
                       (if existsSync l pluginDirName
                        then renameSync pluginDirName (pluginDirName @ ''_'' @ decimal now) l
                        else Some l)
                 in case backed of
                      None \<Rightarrow> l
                    | Some l1 \<Rightarrow>
                        (let l2 = extractAllTo z l1
                         in case unlinkSync zipFile l2 of None \<Rightarrow> l2 | Some l3 \<Rightarrow> l3)))
      | _ \<Rightarrow> l)"

text \<open>
  \<open>clock\<close> gives the reading of \<open>Date.now()\<close> while a given archive is processed. The
  names are listed once, before the loop.
\<close>

definition zipFiles :: "(folder \<Rightarrow> string list) \<Rightarrow> folder \<Rightarrow> string list" where
  "zipFiles readdir l = filter (\<lambda>file. endsWith file ''.zip'') (readdir l)"

definition extractPlugins ::
  "(string \<Rightarrow> nat) \<Rightarrow> (folder \<Rightarrow> string list) \<Rightarrow> folder option \<Rightarrow> folder option" where
  "extractPlugins clock readdir fs =
     (case fs of
        None \<Rightarrow> Some Map.empty
      | Some l \<Rightarrow>
          Some (foldl (\<lambda>l' zipFile. extractZip (clock zipFile) l' zipFile) l
                  (zipFiles readdir l)))"

subsection \<open>Load (loadPlugins)\<close>

definition register :: "plugin \<Rightarrow> manager \<Rightarrow> string \<Rightarrow> manager" where
  "register pluginObj m type =
     (if type = ''default'' then m\<lparr>defaultPlugin := Some pluginObj\<rparr>
      else m\<lparr>plugins := AList.update type pluginObj (plugins m)\<rparr>)"

text \<open>
  Lines 740 to 761 and the receiver of \<open>forEach\<close>: the plugin object and the types a
  directory registers, or \<open>None\<close> when the directory is skipped (no manifest, a
  \<open>require\<close> that throws, no export of the manifest's name, no \<open>main\<close> function, no array of
  types).
\<close>

definition resolve :: "plugin_dir \<Rightarrow> (plugin \<times> string list) option" where
  "resolve d =
     (if \<not> manifest_exists d then None
      else
        (case manifest_json d of
           None \<Rightarrow> None
         | Some mf \<Rightarrow>
             (case pluginModule d of
                None \<Rightarrow> None
              | Some exports \<Rightarrow>
                  (case exports (m_name mf) of
                     None \<Rightarrow> None
                   | Some pluginObj \<Rightarrow>
                       if p_main pluginObj = None then None
                       else
                         (case processingTypes mf of
                            None \<Rightarrow> None
                          | Some types \<Rightarrow> Some (pluginObj, types))))))"

text \<open>
  One round of the loop over the plugin directories: the types are registered, then
  the \<open>init\<close> hook is awaited. A failing \<open>init\<close> is caught and logged; the registrations
  stay.
\<close>

definition loadDir :: "manager \<times> trace \<Rightarrow> plugin_dir \<Rightarrow> manager \<times> trace" where
  "loadDir mt d =
     (case resolve d of
        None \<Rightarrow> mt
      | Some (pluginObj, types) \<Rightarrow>
          (let m1 = foldl (register pluginObj) (fst mt) types
           in (m1, snd mt @ (case p_init pluginObj of
                               None \<Rightarrow> []
                             | Some h \<Rightarrow> [(InitHook pluginObj, m1)]))))"

text \<open>
  The directories of the root, in the order \<open>readdirSync\<close> lists them when the loader
  reads the root (line 731), which is after the archives were staged.
\<close>

definition pluginDirs :: "(folder \<Rightarrow> string list) \<Rightarrow> folder \<Rightarrow> plugin_dir list" where
  "pluginDirs readdir l =
     concat (map (\<lambda>n. case l n of Some (Directory c) \<Rightarrow> [c] | _ \<Rightarrow> []) (readdir l))"

text \<open>
  \<open>loadPlugins\<close> on the manager and the plugin root; it returns both and the trace of
  the hooks it awaited.
\<close>

definition loadPlugins ::
  "(string \<Rightarrow> nat) \<Rightarrow> (folder \<Rightarrow> string list) \<Rightarrow> manager \<times> folder option \<Rightarrow>
     (manager \<times> folder option) \<times> trace" where
  "loadPlugins clock readdir w =
     (case w of (m, fs) \<Rightarrow>
        if isLoading m then ((m, fs), [])
        else
          (let m1 = m\<lparr>isLoading := True\<rparr>;
               fs1 = extractPlugins clock readdir fs;
               cleaned = cleanup m1;
               m2 = m1\<lparr>plugins := [], defaultPlugin := None\<rparr>
           in case fs1 of
                None \<Rightarrow> ((m2\<lparr>isLoading := False\<rparr>, Some Map.empty), cleaned)
              | Some l \<Rightarrow>
                  (case foldl loadDir (m2, cleaned) (pluginDirs readdir l) of
                     (m3, tr) \<Rightarrow> ((m3\<lparr>isLoading := False\<rparr>, fs1), tr))))"

definition reloadPlugins ::
  "(string \<Rightarrow> nat) \<Rightarrow> (folder \<Rightarrow> string list) \<Rightarrow> manager \<times> folder option \<Rightarrow>
     (manager \<times> folder option) \<times> trace" where
  "reloadPlugins clock readdir w = loadPlugins clock readdir w"

subsection \<open>Watch (startWatching)\<close>

text \<open>
  The callback given to \<open>fs.watch\<close>, run at time \<open>now\<close> (ms) for a reported file name,
  with what \<open>existsSync\<close> and \<open>statSync\<close> find under that name (\<open>None\<close>: nothing there).
  A relevant change cancels the pending timer and sets one for 1000 ms later.
\<close>

definition relevant :: "string option \<Rightarrow> node option \<Rightarrow> bool" where
  "relevant filename found \<longleftrightarrow>
     (case filename of
        None \<Rightarrow> False
      | Some f \<Rightarrow>
          f \<noteq> [] \<and>
          (case found of
             None \<Rightarrow> False
           | Some nd \<Rightarrow> (case nd of Directory c \<Rightarrow> True | _ \<Rightarrow> False) \<or> endsWith f ''.zip''))"

definition watchCallback :: "nat \<Rightarrow> string option \<Rightarrow> node option \<Rightarrow> manager \<Rightarrow> manager" where
  "watchCallback now filename found m =
     (if relevant filename found then m\<lparr>reloadDebounce := Some (now + 1000)\<rparr> else m)"

definition startWatching :: "manager \<Rightarrow> manager" where
  "startWatching m = (if watcher m then m else m\<lparr>watcher := True\<rparr>)"

text \<open>
  The event loop at time \<open>now\<close>: a pending timer whose deadline has come fires, and its
  callback calls \<open>reloadPlugins\<close>. The second component counts these calls.
\<close>

definition fireDue :: "nat \<Rightarrow> manager \<times> nat \<Rightarrow> manager \<times> nat" where
  "fireDue now mr =
     (case reloadDebounce (fst mr) of
        None \<Rightarrow> mr
      | Some deadline \<Rightarrow>
          if deadline \<le> now then ((fst mr)\<lparr>reloadDebounce := None\<rparr>, snd mr + 1) else mr)"

text \<open>A change notification: when it arrives, the name reported, what is found there.\<close>

record change =
  at_ms :: nat
  filename :: "string option"
  found :: "node option"

definition notify :: "manager \<times> nat \<Rightarrow> change \<Rightarrow> manager \<times> nat" where
  "notify mr c =
     (case fireDue (at_ms c) mr of
        (m, r) \<Rightarrow> (watchCallback (at_ms c) (filename c) (found c) m, r))"

text \<open>
  The notifications of a list in order, and then the count of reloads as of a later
  time \<open>horizon\<close>.
\<close>

definition reloadsBy :: "nat \<Rightarrow> change list \<Rightarrow> manager \<Rightarrow> nat" where
  "reloadsBy horizon cs m = snd (fireDue horizon (foldl notify (m, 0) cs))"

section \<open>Notions used by the properties\<close>

text \<open>
  The sequence number a frame carries, as \<open>handleMessage\<close> reads it (\<open>ev.s\<close> truthy), and
  the numbers carried by a list of frames, in arrival order.
\<close>

fun carried :: "event option \<Rightarrow> int option" where
  "carried None = None"
| "carried (Some ev) =
     (case ev_s ev of None \<Rightarrow> None | Some n \<Rightarrow> if n = 0 then None else Some n)"

definition numbered :: "event option list \<Rightarrow> int list" where
  "numbered frames = List.map_filter carried frames"

text \<open>A dispatch frame that carries sequence number \<open>n\<close> and nothing else.\<close>

definition numbered_frame :: "int \<Rightarrow> event option" where
  "numbered_frame n = Some \<lparr>ev_op = Some 0, ev_s = Some n, ev_t = None, ev_d = None\<rparr>"

text \<open>
  An \<open>init\<close> during which the watcher starts and both REST calls answer, and one during
  which the token request is rejected.
\<close>

definition env_up :: "string \<Rightarrow> int \<Rightarrow> string \<Rightarrow> connect_env" where
  "env_up tok e u =
     \<lparr>watch_ok = True, token_response = Some (tok, e), wslink_response = Some u\<rparr>"

definition env_down :: connect_env where
  "env_down = \<lparr>watch_ok = True, token_response = None, wslink_response = None\<rparr>"

text \<open>A bot in an established session: identified, \<open>READY\<close> received, 42 events seen.\<close>

definition live_socket :: socket where
  "live_socket =
     \<lparr>sock_url = ''wss://gateway'', readyState = OPEN, listening = True,
      sent = [Identify ''QQBot t0'' 33554432 [0, 1], Heartbeat None]\<rparr>"

definition live_bot :: qqbot where
  "live_bot =
     new_QQBot\<lparr>heartbeat_interval := 41250, expires_in := 7200000,
       session_id := Some ''session-1'', seq := 42, accessToken := Some ''t0'',
       heartbeatTimer := Some 41250, tokenRefreshTimer := Some 7140000,
       connectionResetTimer := Some 3600000, ws := Some live_socket\<rparr>"

text \<open>
  Plugins for the examples: \<open>echo\<close> replies with the command body, \<open>helper\<close> with
  nothing, two versions of a chat plugin (the first with a failing \<open>init\<close>), and \<open>faulty\<close>,
  whose \<open>main\<close> throws. \<open>three_slots\<close> is a registry in which \<open>echo\<close> holds three slots.
\<close>

definition echo :: plugin where
  "echo =
     \<lparr>p_name = ''echo'', p_main = Some (\<lambda>t c s p. Some (Text c)), p_init = None,
      p_cleanup = Some Completes\<rparr>"

definition helper :: plugin where
  "helper =
     \<lparr>p_name = ''helper'', p_main = Some (\<lambda>t c s p. Some Null), p_init = Some Completes,
      p_cleanup = Some Fails\<rparr>"

definition chat_v1 :: plugin where
  "chat_v1 =
     \<lparr>p_name = ''chat_v1'', p_main = Some (\<lambda>t c s p. Some (Text ''v1'')),
      p_init = Some Fails, p_cleanup = Some Completes\<rparr>"

definition chat_v2 :: plugin where
  "chat_v2 =
     \<lparr>p_name = ''chat_v2'', p_main = Some (\<lambda>t c s p. Some (Text ''v2'')),
      p_init = Some Completes, p_cleanup = None\<rparr>"

definition faulty :: plugin where
  "faulty =
     \<lparr>p_name = ''faulty'', p_main = Some (\<lambda>t c s p. None), p_init = None,
      p_cleanup = None\<rparr>"

definition three_slots :: manager where
  "three_slots =
     new_PluginManager\<lparr>plugins := [(''echo'', echo), (''help'', helper), (''/echo'', echo)],
       defaultPlugin := Some echo\<rparr>"

definition only_default :: manager where
  "only_default = new_PluginManager\<lparr>defaultPlugin := Some faulty\<rparr>"

definition only_ping :: manager where
  "only_ping = new_PluginManager\<lparr>plugins := [(''ping'', faulty)]\<rparr>"

text \<open>
  A well-formed plugin directory for a plugin and its declared types, and a registry
  that serves \<open>chat\<close> with the first chat plugin.
\<close>

definition installed :: "plugin \<Rightarrow> string list \<Rightarrow> plugin_dir" where
  "installed p ts =
     \<lparr>dir_empty = False, manifest_exists = True,
      manifest_json = Some \<lparr>m_name = p_name p, processingTypes = Some ts\<rparr>,
      pluginModule = Some (\<lambda>n. if n = p_name p then Some p else None)\<rparr>"

definition empty_dir :: plugin_dir where
  "empty_dir =
     \<lparr>dir_empty = True, manifest_exists = False, manifest_json = None, pluginModule = None\<rparr>"

definition serving :: manager where
  "serving = new_PluginManager\<lparr>plugins := [(''chat'', chat_v1)]\<rparr>"

text \<open>
  A \<open>readdirSync\<close> for the examples: of the names below, those that exist, in this
  (alphabetical) order. A clock that stands still.
\<close>

definition shelf :: "string list" where
  "shelf =
     [''chat_v1'', ''chat_v1_1700000000000'', ''chat_v2'', ''docs'', ''flat.zip'', ''helper'',
      ''notes.txt'', ''two.zip'', ''update.zip'', ''v1.zip'']"

definition listed :: "folder \<Rightarrow> string list" where
  "listed l = filter (\<lambda>n. l n \<noteq> None) shelf"

definition clock0 :: "string \<Rightarrow> nat" where
  "clock0 zipFile = 1700000000000"

text \<open>
  Four archives: a bundle of the second chat plugin under the directory name
  \<open>chat_v1\<close>, a flat archive with no directory, an archive with an empty directory
  \<open>docs\<close> beside the plugin directory, and a bundle of the first chat plugin.
\<close>

definition v1_zip :: archive where
  "v1_zip =
     \<lparr>entries =
        [\<lparr>entryName = ''chat_v1/manifest.json'', isDirectory = False\<rparr>,
         \<lparr>entryName = ''chat_v1/main.js'', isDirectory = False\<rparr>],
      unpack = (\<lambda>n before. if n = ''chat_v1'' then installed chat_v1 [''chat''] else empty_dir)\<rparr>"

definition update_zip :: archive where
  "update_zip =
     \<lparr>entries =
        [\<lparr>entryName = ''chat_v1/'', isDirectory = True\<rparr>,
         \<lparr>entryName = ''chat_v1/manifest.json'', isDirectory = False\<rparr>,
         \<lparr>entryName = ''chat_v1/main.js'', isDirectory = False\<rparr>],
      unpack = (\<lambda>n before. if n = ''chat_v1'' then installed chat_v2 [''chat''] else empty_dir)\<rparr>"



text \<open>
  Plugin roots: \<open>disk\<close> holds the second chat plugin and the helper; \<open>two_chats\<close> holds
  the second chat plugin and the archive that brings the first; \<open>staging\<close>
  holds the first chat plugin, the archive that replaces it and the flat archive;
  \<open>blocked\<close> is \<open>staging\<close> with the backup name taken by a directory that is not empty;
  \<open>only_two\<close> holds the archive with the empty directory.
\<close>

definition disk :: folder where
  "disk =
     [''chat_v2'' \<mapsto> Directory (installed chat_v2 [''chat'']),
      ''notes.txt'' \<mapsto> File,
      ''helper'' \<mapsto> Directory (installed helper [''help'', ''default''])]"

definition two_chats :: folder where
  "two_chats =
     [''chat_v2'' \<mapsto> Directory (installed chat_v2 [''chat'', ''default'']),
      ''notes.txt'' \<mapsto> File,
      ''v1.zip'' \<mapsto> Archive v1_zip]"




text \<open>What is under the given names of a root.\<close>

definition lookups :: "folder option \<Rightarrow> string list \<Rightarrow> node option list" where
  "lookups fs names = (case fs of None \<Rightarrow> [] | Some l \<Rightarrow> map l names)"

text \<open>What a trace entry shows of the registry.\<close>

definition seen ::
  "activity \<times> manager \<Rightarrow> activity \<times> (string \<times> plugin) list \<times> plugin option" where
  "seen ob = (fst ob, plugins (snd ob), defaultPlugin (snd ob))"

text \<open>
  The registry as a dispatch reads it: the lookup in the type map and the default
  slot. A wait of a load, as any other task finds it: the hook awaited, the registry,
  and \<open>isLoading\<close>.
\<close>

definition view :: "manager \<Rightarrow> (string \<Rightarrow> plugin option) \<times> plugin option" where
  "view m = (map_of (plugins m), defaultPlugin m)"

definition glimpse ::
  "activity \<times> manager \<Rightarrow> activity \<times> ((string \<Rightarrow> plugin option) \<times> plugin option) \<times> bool" where
  "glimpse ob = (fst ob, view (snd ob), isLoading (snd ob))"

text \<open>
  The plugins a load registers, in load order, each with the types it declares:
  the directories of the staged root that resolve. \<open>holder t rs\<close> is the last plugin of \<open>rs\<close>
  that declares \<open>t\<close>. \<open>built rs\<close> is the registry in which every type but \<open>default\<close> is
  held by the last plugin of \<open>rs\<close> that declares it, and the default slot by the last that
  declares \<open>default\<close>. \<open>initWaits done rs\<close> lists, for the plugins of \<open>rs\<close> that have an \<open>init\<close>
  hook, the wait on that hook with the registry built from the plugins before (\<open>done\<close>
  first) and the plugin itself.
\<close>

definition resolved :: "(folder \<Rightarrow> string list) \<Rightarrow> folder \<Rightarrow> (plugin \<times> string list) list" where
  "resolved readdir l = List.map_filter resolve (pluginDirs readdir l)"

fun holder :: "string \<Rightarrow> (plugin \<times> string list) list \<Rightarrow> plugin option" where
  "holder t [] = None"
| "holder t (r # rs) =
     (case holder t rs of
        Some q \<Rightarrow> Some q
      | None \<Rightarrow> if t \<in> set (snd r) then Some (fst r) else None)"

definition built ::
  "(plugin \<times> string list) list \<Rightarrow> (string \<Rightarrow> plugin option) \<times> plugin option" where
  "built rs = ((\<lambda>t. if t = ''default'' then None else holder t rs), holder ''default'' rs)"

fun initWaits ::
  "(plugin \<times> string list) list \<Rightarrow> (plugin \<times> string list) list \<Rightarrow>
     (activity \<times> ((string \<Rightarrow> plugin option) \<times> plugin option) \<times> bool) list" where
  "initWaits done [] = []"
| "initWaits done (r # rs) =
     (if p_init (fst r) = None then [] else [(InitHook (fst r), built (done @ [r]), True)]) @
     initWaits (done @ [r]) rs"



text \<open>
  A burst of three changes within half a second (an archive appears, its directory
  is touched, the archive changes again), and the notification that follows the removal
  of an archive.
\<close>

definition burst :: "change list" where
  "burst =
     [\<lparr>at_ms = 0, filename = Some ''update.zip'', found = Some (Archive update_zip)\<rparr>,
      \<lparr>at_ms = 120, filename = Some ''chat_v1'',
        found = Some (Directory (installed chat_v1 [''chat'']))\<rparr>,
      \<lparr>at_ms = 480, filename = Some ''update.zip'', found = Some (Archive update_zip)\<rparr>]"

definition removal :: "change list" where
  "removal = [\<lparr>at_ms = 0, filename = Some ''update.zip'', found = None\<rparr>]"

section \<open>Properties of the gateway session\<close>

subsection \<open>The stored sequence number\<close>

lemma seq_safeResetConnection: "seq (safeResetConnection dl b) = seq b"
  by (simp add: safeResetConnection_def cleanupResources_def)

lemma seq_send: "send f b = Some b' \<Longrightarrow> seq b' = seq b"
  by (auto simp: send_def split: option.splits)

lemma seq_onReady: "seq (case onReady ev b of Inl b' \<Rightarrow> b' | Inr b' \<Rightarrow> b') = seq b"
  by (auto simp: onReady_def sendHeartbeat_def Let_def dest: seq_send split: option.splits)

lemma seq_handleMessage:
  "seq (handleMessage data b) = (case carried data of None \<Rightarrow> seq b | Some n \<Rightarrow> n)"
proof (cases data)
  case None
  then show ?thesis by (simp add: handleMessage_def)
next
  case (Some ev)
  let ?b3 = "updateSeq ev (updateHeartbeat ev (forwardContent ev b))"
  have a: "seq ?b3 = (case carried data of None \<Rightarrow> seq b | Some n \<Rightarrow> n)"
    using Some
    by (simp add: updateSeq_def updateHeartbeat_def forwardContent_def split: option.splits)
  have "seq (handleMessage data b) = seq ?b3"
    using Some seq_onReady [of ev ?b3]
    by (cases "onReady ev ?b3")
       (simp_all add: handleMessage_def onReconnect_def seq_safeResetConnection)
  with a show ?thesis by simp
qed

lemma seq_handleMessages:
  "seq (handleMessages frames b) = last (seq b # numbered frames)"
proof (induction frames arbitrary: b)
  case Nil
  then show ?case by (simp add: handleMessages_def numbered_def List.map_filter_simps)
next
  case (Cons f fs)
  have "seq (handleMessages (f # fs) b) = last (seq (handleMessage f b) # numbered fs)"
    using Cons.IH [of "handleMessage f b"] by (simp add: handleMessages_def)
  then show ?case
    by (cases "carried f") (simp_all add: seq_handleMessage numbered_def List.map_filter_simps)
qed

lemma last_of_sorted:
  fixes x :: int
  shows "sorted (x # xs) \<Longrightarrow> last (x # xs) = Max (set (x # xs))"
proof (induction xs arbitrary: x)
  case Nil
  then show ?case by simp
next
  case (Cons y ys)
  then have l: "last (y # ys) = Max (set (y # ys))" and "x \<le> y" by simp_all
  have "y \<le> Max (set (y # ys))" by simp
  with \<open>x \<le> y\<close> have "x \<le> Max (set (y # ys))" by (rule order_trans)
  then have "Max (set (x # y # ys)) = Max (set (y # ys))"
    by (simp add: max_def)
  with l show ?case by simp
qed

text \<open>
  C1, as the code has it. \<open>handleMessage\<close> assigns \<open>seq\<close> from every frame that carries a
  non-zero sequence number and compares it with nothing. After any list of frames,
  processed in arrival order from any state, \<open>seq\<close> is the number carried by the most
  recent numbered frame (or what it was before, when no frame was numbered). It is
  the maximum seen so far whenever the numbers arrive in non-decreasing order, starting
  at or above the stored one.
\<close>

theorem seq_is_last_numbered:
  "seq (handleMessages frames b) = last (seq b # numbered frames) \<and>
   (sorted (seq b # numbered frames) \<longrightarrow>
      seq (handleMessages frames b) = Max (set (seq b # numbered frames)))"
  using last_of_sorted [of "seq b" "numbered frames"]
  by (simp only: seq_handleMessages) simp

text \<open>Frames numbered 1, 2, 2, 7 on a fresh bot: in order, so \<open>seq\<close> ends at the maximum.\<close>

theorem seq_is_last_numbered_witness:
  "sorted (seq new_QQBot #
      numbered [numbered_frame 1, numbered_frame 2, None, numbered_frame 2, numbered_frame 7]) \<and>
   seq (handleMessages
          [numbered_frame 1, numbered_frame 2, None, numbered_frame 2, numbered_frame 7]
          new_QQBot) = 7"
proof -
  let ?fs = "[numbered_frame 1, numbered_frame 2, None, numbered_frame 2, numbered_frame 7]"
  have n: "seq new_QQBot # numbered ?fs = [0, 1, 2, 2, 7]"
    by (simp add: numbered_def numbered_frame_def new_QQBot_def List.map_filter_simps)
  have "sorted (seq new_QQBot # numbered ?fs)" by (simp only: n) simp
  moreover from this seq_is_last_numbered [of ?fs new_QQBot]
  have "seq (handleMessages ?fs new_QQBot) = Max (set (seq new_QQBot # numbered ?fs))"
    by blast
  ultimately show ?thesis by (simp only: n) simp
qed

text \<open>
  C1 as stated fails: after frame 5, frame 3 moves \<open>seq\<close> back from 5 to 3, below the
  maximum carried so far.
\<close>

theorem seq_moves_backward:
  "seq (handleMessages [numbered_frame 5] new_QQBot) = 5 \<and>
   seq (handleMessages [numbered_frame 5, numbered_frame 3] new_QQBot) = 3 \<and>
   Max (set (numbered [numbered_frame 5, numbered_frame 3])) = 5"
  by (simp add: handleMessages_def handleMessage_def numbered_frame_def new_QQBot_def
      updateSeq_def updateHeartbeat_def forwardContent_def onReady_def onReconnect_def
      numbered_def List.map_filter_simps)

subsection \<open>The frame sent when the socket opens\<close>

lemma intents_value: "intents = 33554432"
  by (simp add: intents_def)

lemma handleOpen_wire:
  assumes "ws b = Some k" and "readyState k = OPEN"
  shows "wire (handleOpen b) =
           sent k @ [if restoreLink b then Resume (bearer b) (session_id b) (seq b + 1)
                     else Identify (bearer b) 33554432 [0, 1]]"
    and "restoreLink (handleOpen b) = False"
  using assms
  by (auto simp: handleOpen_def sendSession_def send_def ws_send_def wire_def intents_value)

lemma init_connects:
  assumes "\<not> isConnecting b"
  shows "init (env_up tok e u) b =
           b\<lparr>accessToken := Some tok, expires_in := e * 1000,
             tokenRefreshTimer := Some (e * 1000 - 60000),
             ws := Some \<lparr>sock_url = u, readyState = CONNECTING, listening = True,
                          sent = []\<rparr>,
             connectionResetTimer := Some (60 * 60 * 1000), isConnecting := False\<rparr>"
  using assms
  by (simp add: init_def env_up_def setupConnection_def anewGetAccessToken_def
      scheduleConnectionReset_def Let_def)

lemma socketOpened_init:
  assumes "\<not> isConnecting b"
  shows "wire (socketOpened (init (env_up tok e u) b)) =
           [if restoreLink b then Resume (''QQBot '' @ tok) (session_id b) (seq b + 1)
            else Identify (''QQBot '' @ tok) 33554432 [0, 1]]"
  by (simp add: init_connects [OF assms] socketOpened_def handleOpen_def sendSession_def
      send_def ws_send_def wire_def intents_value bearer_def)

lemma reconnect_after_reset:
  assumes "\<not> isShuttingDown b" and "\<not> isConnecting b"
  shows "wire (socketOpened (reconnectFire (env_up tok e u) (safeResetConnection dl b))) =
           [Resume (''QQBot '' @ tok) (session_id b) (seq b + 1)]"
proof -
  let ?b = "(safeResetConnection dl b)\<lparr>reconnects := tl (reconnects (safeResetConnection dl b)),
              restoreLink := True\<rparr>"
  have "\<not> isConnecting ?b" and "restoreLink ?b" and "session_id ?b = session_id b"
    and "seq ?b = seq b"
    using assms by (simp_all add: safeResetConnection_def cleanupResources_def)
  then show ?thesis
    using socketOpened_init [of ?b tok e u] by (simp add: reconnectFire_def)
qed

text \<open>
  C2, as the code has it. \<open>handleOpen\<close> looks at \<open>restoreLink\<close> only. On an open socket
  it writes exactly one frame: with \<open>restoreLink\<close> set, a resume frame (op 6) with the
  token, the stored \<open>session_id\<close> and \<open>seq + 1\<close>, and it clears the flag; with
  \<open>restoreLink\<close> clear, an identify frame (op 2) with the token, intents \<open>1 << 25\<close> and
  shard \<open>[0, 1]\<close>. Every reconnect that \<open>safeResetConnection\<close> schedules sets the flag,
  so the reconnect after a close or an error of a session sends the resume frame with
  that session's \<open>session_id\<close> and \<open>seq + 1\<close>; a fresh bot whose first \<open>init\<close> reaches
  the socket sends identify.
\<close>

theorem handleOpen_by_restoreLink:
  "(ws b = Some k \<and> readyState k = OPEN \<longrightarrow>
      wire (handleOpen b) =
        sent k @ [if restoreLink b then Resume (bearer b) (session_id b) (seq b + 1)
                  else Identify (bearer b) 33554432 [0, 1]] \<and>
      restoreLink (handleOpen b) = False) \<and>
   (\<not> isShuttingDown b \<and> \<not> isConnecting b \<longrightarrow>
      wire (socketOpened (reconnectFire (env_up tok e u) (handleClose b))) =
        [Resume (''QQBot '' @ tok) (session_id b) (seq b + 1)] \<and>
      wire (socketOpened (reconnectFire (env_up tok e u) (handleError b))) =
        [Resume (''QQBot '' @ tok) (session_id b) (seq b + 1)]) \<and>
   wire (socketOpened (init (env_up tok e u) new_QQBot)) =
     [Identify (''QQBot '' @ tok) 33554432 [0, 1]]"
proof -
  have "wire (socketOpened (init (env_up tok e u) new_QQBot)) =
     [Identify (''QQBot '' @ tok) 33554432 [0, 1]]"
    using socketOpened_init [of new_QQBot tok e u] by (simp add: new_QQBot_def)
  then show ?thesis
    using handleOpen_wire [of b k] reconnect_after_reset [of b tok e u]
    by (simp add: handleClose_def handleError_def)
qed

text \<open>
  The established session of \<open>live_bot\<close> (session \<open>session-1\<close>, 42 events): the reconnect
  after its close resumes that session at 43.
\<close>

theorem handleOpen_by_restoreLink_witness:
  "ws live_bot = Some live_socket \<and> readyState live_socket = OPEN \<and>
   \<not> isShuttingDown live_bot \<and> \<not> isConnecting live_bot \<and>
   wire (handleOpen live_bot) = sent live_socket @ [Identify ''QQBot t0'' 33554432 [0, 1]] \<and>
   wire (socketOpened (reconnectFire (env_up ''t1'' 7200 ''wss://gateway'')
                         (handleClose live_bot))) =
     [Resume ''QQBot t1'' (Some ''session-1'') 43]"
proof -
  have h: "ws live_bot = Some live_socket" "readyState live_socket = OPEN"
    "\<not> isShuttingDown live_bot" "\<not> isConnecting live_bot"
    by (simp_all add: live_bot_def live_socket_def new_QQBot_def)
  have v: "restoreLink live_bot = False" "bearer live_bot = ''QQBot t0''"
    "session_id live_bot = Some ''session-1''" "seq live_bot = 42"
    by (simp_all add: live_bot_def new_QQBot_def bearer_def)
  show ?thesis
    using h handleOpen_by_restoreLink [of live_bot live_socket "''t1''" 7200 "''wss://gateway''"]
    by (simp add: v)
qed

text \<open>
  C2 as stated fails for a first connection: when the first \<open>init\<close> of a fresh bot fails
  before any socket exists (the token request is rejected), the retry is scheduled by
  \<open>safeResetConnection\<close>, and the first socket that ever opens is sent a resume frame with
  \<open>session_id\<close> \<open>null\<close> and \<open>seq\<close> 1, not an identify frame.
\<close>

theorem first_connection_sends_resume:
  "wire (socketOpened (reconnectFire (env_up ''t1'' 7200 ''wss://gateway'')
                         (init env_down new_QQBot))) =
     [Resume ''QQBot t1'' None 1]"
  by (simp add: reconnectFire_def init_def env_up_def env_down_def new_QQBot_def
      setupConnection_def anewGetAccessToken_def scheduleConnectionReset_def
      safeResetConnection_def cleanupResources_def socketOpened_def handleOpen_def
      send_def ws_send_def wire_def bearer_def Let_def)

subsection \<open>The reset procedure\<close>

text \<open>
  \<open>cleanupResources\<close> can be repeated: a second run changes nothing. After it no timer
  is set and no socket is held.
\<close>

theorem cleanupResources_idempotent:
  "cleanupResources (cleanupResources b) = cleanupResources b \<and>
   heartbeatTimer (cleanupResources b) = None \<and>
   tokenRefreshTimer (cleanupResources b) = None \<and>
   connectionResetTimer (cleanupResources b) = None \<and>
   ws (cleanupResources b) = None"
  by (simp add: cleanupResources_def)

section \<open>Properties of the plugin registry\<close>

subsection \<open>Dispatch\<close>

text \<open>
  C4, at the input where the code departs from it. A default plugin whose \<open>main\<close> throws
  is caught, and the dispatch then falls through to \<open>return null\<close>, the value it also
  returns when no handler exists at all; the same failure of a plugin matched by type
  returns the failure reply.
\<close>

theorem default_failure_is_silent:
  "processMessage only_default ''ping'' ''x'' (Some ''u1'') False =
     ([MainCall faulty ''ping'' ''x'' (Some ''u1'') False], Null) \<and>
   processMessage new_PluginManager ''ping'' ''x'' (Some ''u1'') False = ([], Null) \<and>
   processMessage only_ping ''ping'' ''x'' (Some ''u1'') False =
     ([MainCall faulty ''ping'' ''x'' (Some ''u1'') False], Text plugin_error)"
  by (simp add: processMessage_def only_default_def only_ping_def new_PluginManager_def
      invoke_def faulty_def)

text \<open>
  A plugin matched by type whose \<open>main\<close> throws or rejects: the dispatch catches it and
  returns the failure reply.
\<close>

theorem matched_failure_reply:
  "map_of (plugins m) t = Some q \<and> invoke q t c s pr = None \<longrightarrow>
     processMessage m t c s pr = ([MainCall q t c s pr], Text plugin_error)"
  by (simp add: processMessage_def)

theorem matched_failure_reply_witness:
  "map_of (plugins only_ping) ''ping'' = Some faulty \<and>
   invoke faulty ''ping'' ''pong'' None True = None \<and>
   processMessage only_ping ''ping'' ''pong'' None True =
     ([MainCall faulty ''ping'' ''pong'' None True], Text plugin_error)"
proof -
  have "map_of (plugins only_ping) ''ping'' = Some faulty"
    by (simp add: only_ping_def new_PluginManager_def)
  moreover have "invoke faulty ''ping'' ''pong'' None True = None"
    by (simp add: invoke_def faulty_def)
  ultimately show ?thesis
    using matched_failure_reply [of only_ping "''ping''" faulty "''pong''" None True] by simp
qed

text \<open>
  C8. When the type map has no entry for the command type and a default plugin is
  registered, the dispatch calls the default plugin's \<open>main\<close>, once, with the four
  arguments it was given, which are the arguments a plugin registered for that type is
  called with; what \<open>main\<close> returns is the reply. Through \<open>processMessages\<close> these are
  the command type and body parsed from the inbound text, the sender and the
  private-chat flag.
\<close>

theorem default_gets_same_arguments:
  "map_of (plugins m) t = None \<and> defaultPlugin m = Some d \<longrightarrow>
     fst (processMessage m t c s pr) = [MainCall d t c s pr] \<and>
     (\<forall>r. invoke d t c s pr = Some r \<longrightarrow> snd (processMessage m t c s pr) = r) \<and>
     (\<forall>q. fst (processMessage (m\<lparr>plugins := AList.update t q (plugins m)\<rparr>) t c s pr) =
            [MainCall q t c s pr]) \<and>
     (parseMessage (in_msg i) = Some (t, c) \<longrightarrow>
        fst (processMessages m i) =
          [MainCall d t c (in_sender_openid i)
             (in_group_id i = None \<or> in_group_id i = Some [])])"
  by (simp add: processMessage_def processMessages_def update_conv' Let_def)

text \<open>
  A private message \<open>ping  hello world\<close> (with blanks around it) to a registry without
  \<open>ping\<close>: the default plugin \<open>echo\<close> is called with \<open>ping\<close> and \<open>hello world\<close>.
\<close>

theorem default_gets_same_arguments_witness:
  "map_of (plugins three_slots) ''ping'' = None \<and> defaultPlugin three_slots = Some echo \<and>
   parseMessage ''  ping  hello world '' = Some (''ping'', ''hello world'') \<and>
   processMessages three_slots
     \<lparr>in_msg = ''  ping  hello world '', in_id = Some ''m1'', in_group_id = None,
      in_sender_openid = Some ''u1''\<rparr> =
     ([MainCall echo ''ping'' ''hello world'' (Some ''u1'') True], Text ''hello world'')"
proof -
  let ?i = "\<lparr>in_msg = ''  ping  hello world '', in_id = Some ''m1'', in_group_id = None,
             in_sender_openid = Some ''u1''\<rparr>"
  have h: "map_of (plugins three_slots) ''ping'' = None" "defaultPlugin three_slots = Some echo"
    by (simp_all add: three_slots_def new_PluginManager_def)
  have p: "parseMessage ''  ping  hello world '' = Some (''ping'', ''hello world'')"
    by (simp add: parseMessage_def trim_def js_space_def)
  have r: "invoke echo ''ping'' ''hello world'' (Some ''u1'') True = Some (Text ''hello world'')"
    by (simp add: invoke_def echo_def)
  have s: "snd (processMessages three_slots ?i) =
             snd (processMessage three_slots ''ping'' ''hello world'' (Some ''u1'') True)"
    by (simp add: processMessages_def p Let_def)
  from default_gets_same_arguments
         [of three_slots "''ping''" echo "''hello world''" "Some ''u1''" True ?i] h p r s
  have "fst (processMessages three_slots ?i) =
          [MainCall echo ''ping'' ''hello world'' (Some ''u1'') True]"
    and "snd (processMessages three_slots ?i) = Text ''hello world''"
    by simp_all
  then have "processMessages three_slots ?i =
     ([MainCall echo ''ping'' ''hello world'' (Some ''u1'') True], Text ''hello world'')"
    by (simp add: prod_eq_iff)
  with h p show ?thesis by simp
qed

subsection \<open>Cleanup\<close>

lemma entries_with_value:
  "distinct (map fst xs) \<Longrightarrow>
     card {t. map_of xs t = Some p} = length (filter (\<lambda>tq. snd tq = p) xs)"
proof (induction xs)
  case Nil
  then show ?case by simp
next
  case (Cons x xs)
  obtain t q where x: "x = (t, q)" by (cases x)
  from Cons.prems x have fresh: "t \<notin> fst ` set xs" and d: "distinct (map fst xs)" by simp_all
  then have none: "map_of xs t = None" by (simp add: map_of_eq_None_iff)
  have fin: "finite {u. map_of xs u = Some p}"
    by (rule finite_subset [of _ "dom (map_of xs)"]) (auto simp: finite_dom_map_of)
  have tn: "t \<notin> {u. map_of xs u = Some p}" using none by simp
  show ?case
  proof (cases "q = p")
    case True
    have "{u. map_of (x # xs) u = Some p} = insert t {u. map_of xs u = Some p}"
      using x True by auto
    then show ?thesis using fin tn Cons.IH [OF d] x True by simp
  next
    case False
    have "{u. map_of (x # xs) u = Some p} = {u. map_of xs u = Some p}"
      using x False none by auto
    then show ?thesis using Cons.IH [OF d] x False by simp
  qed
qed

lemma cleanup_calls_in_map:
  "p_cleanup p \<noteq> None \<Longrightarrow>
   length (filter (\<lambda>ob. fst ob = CleanupHook p)
            (concat (map (\<lambda>(type, q). cleanupPlugin m q) xs))) =
   length (filter (\<lambda>tq. snd tq = p) xs)"
  by (induction xs) (auto simp: cleanupPlugin_def split: option.splits)

text \<open>
  C10. For a plugin that has a \<open>cleanup\<close> hook, \<open>cleanup()\<close> awaits the hook once for
  every command type the type map holds it under, and once more when it is also the
  default plugin.
\<close>

theorem cleanup_once_per_registration:
  assumes "p_cleanup p \<noteq> None" and "distinct (map fst (plugins m))"
  shows "length (filter (\<lambda>ob. fst ob = CleanupHook p) (cleanup m)) =
           card {t. map_of (plugins m) t = Some p} +
           (if defaultPlugin m = Some p then 1 else 0)"
proof -
  have "length (filter (\<lambda>ob. fst ob = CleanupHook p)
          (case defaultPlugin m of None \<Rightarrow> [] | Some d \<Rightarrow> cleanupPlugin m d)) =
        (if defaultPlugin m = Some p then 1 else 0)"
    using assms(1) by (auto simp: cleanupPlugin_def split: option.splits)
  then show ?thesis
    using cleanup_calls_in_map [OF assms(1), of m "plugins m"]
      entries_with_value [OF assms(2), of p]
    by (simp add: cleanup_def)
qed

lemma echo_helper: "echo \<noteq> helper" "helper \<noteq> echo"
  by (simp_all add: echo_def helper_def)

text \<open>
  \<open>echo\<close> is registered under two types and as the default: its hook runs three times.
\<close>

theorem cleanup_once_per_registration_witness:
  "p_cleanup echo \<noteq> None \<and> distinct (map fst (plugins three_slots)) \<and>
   map fst (cleanup three_slots) =
     [CleanupHook echo, CleanupHook helper, CleanupHook echo, CleanupHook echo] \<and>
   card {t. map_of (plugins three_slots) t = Some echo} +
     (if defaultPlugin three_slots = Some echo then 1 else 0) = 3"
proof -
  have a: "p_cleanup echo \<noteq> None" by (simp add: echo_def)
  have b: "distinct (map fst (plugins three_slots))"
    by (simp add: three_slots_def new_PluginManager_def)
  have c: "map fst (cleanup three_slots) =
             [CleanupHook echo, CleanupHook helper, CleanupHook echo, CleanupHook echo]"
    by (simp add: cleanup_def cleanupPlugin_def three_slots_def new_PluginManager_def
        echo_def helper_def)
  have "length (filter (\<lambda>ob. fst ob = CleanupHook echo) (cleanup three_slots)) = 3"
    by (simp add: cleanup_def cleanupPlugin_def three_slots_def new_PluginManager_def
        echo_helper)
       (simp add: echo_def)
  with cleanup_once_per_registration [OF a b] a b c show ?thesis by simp
qed

subsection \<open>Load\<close>

lemma register_isLoading: "isLoading (foldl (register p) m ts) = isLoading m"
  by (induction ts arbitrary: m) (simp_all add: register_def)

lemma register_lookup:
  "map_of (plugins (foldl (register p) m ts)) t =
     (if t \<in> set ts \<and> t \<noteq> ''default'' then Some p else map_of (plugins m) t)"
  by (induction ts arbitrary: m) (auto simp: register_def update_conv')

lemma register_default:
  "defaultPlugin (foldl (register p) m ts) =
     (if ''default'' \<in> set ts then Some p else defaultPlugin m)"
  by (induction ts arbitrary: m) (auto simp: register_def)

lemma register_keys:
  "fst ` set (plugins (foldl (register p) m ts)) =
     fst ` set (plugins m) \<union> (set ts - {''default''})"
  by (induction ts arbitrary: m) (auto simp: register_def dom_update)

lemma register_distinct:
  "distinct (map fst (plugins m)) \<Longrightarrow> distinct (map fst (plugins (foldl (register p) m ts)))"
  by (induction ts arbitrary: m) (simp_all add: register_def distinct_update)

text \<open>What one directory adds to the trace.\<close>

lemma loadDir_cases:
  "loadDir (m, tr) d =
     (case resolve d of
        None \<Rightarrow> (m, tr)
      | Some (p, ts) \<Rightarrow>
          (foldl (register p) m ts,
           tr @ (if p_init p = None then [] else [(InitHook p, foldl (register p) m ts)])))"
  by (auto simp: loadDir_def Let_def split: option.splits)

lemma loadDirs_trace:
  "\<exists>ext. snd (foldl loadDir (m, tr) ds) = tr @ ext \<and>
     (\<forall>ob \<in> set ext.
        (\<exists>p. fst ob = InitHook p) \<and> isLoading (snd ob) = isLoading m \<and>
        fst ` set (plugins m) \<subseteq> fst ` set (plugins (snd ob)) \<and>
        fst ` set (plugins (snd ob)) \<subseteq> fst ` set (plugins (fst (foldl loadDir (m, tr) ds)))) \<and>
     isLoading (fst (foldl loadDir (m, tr) ds)) = isLoading m \<and>
     fst ` set (plugins m) \<subseteq> fst ` set (plugins (fst (foldl loadDir (m, tr) ds)))"
proof (induction ds arbitrary: m tr)
  case Nil
  then show ?case by simp
next
  case (Cons d ds)
  obtain m1 tr1 where step: "loadDir (m, tr) d = (m1, tr1)" by (cases "loadDir (m, tr) d")
  have keys: "fst ` set (plugins m) \<subseteq> fst ` set (plugins m1)"
    and load: "isLoading m1 = isLoading m"
    and one: "\<exists>e1. tr1 = tr @ e1 \<and>
        (\<forall>ob \<in> set e1. (\<exists>p. fst ob = InitHook p) \<and> snd ob = m1)"
  proof -
    show "fst ` set (plugins m) \<subseteq> fst ` set (plugins m1)"
    proof (cases "resolve d")
      case None
      with step show ?thesis by (simp add: loadDir_cases)
    next
      case (Some pt)
      with step have "m1 = foldl (register (fst pt)) m (snd pt)"
        by (cases pt) (simp add: loadDir_cases)
      then show ?thesis by (simp add: register_keys)
    qed
    show "isLoading m1 = isLoading m"
      using step by (auto simp: loadDir_cases register_isLoading split: option.splits)
    show "\<exists>e1. tr1 = tr @ e1 \<and>
        (\<forall>ob \<in> set e1. (\<exists>p. fst ob = InitHook p) \<and> snd ob = m1)"
      using step by (auto simp: loadDir_cases split: option.splits if_splits)
  qed
  from one obtain e1 where e1: "tr1 = tr @ e1"
    "\<forall>ob \<in> set e1. (\<exists>p. fst ob = InitHook p) \<and> snd ob = m1" by blast
  from Cons.IH [of m1 tr1] obtain e2 where e2:
    "snd (foldl loadDir (m1, tr1) ds) = tr1 @ e2"
    "\<forall>ob \<in> set e2.
        (\<exists>p. fst ob = InitHook p) \<and> isLoading (snd ob) = isLoading m1 \<and>
        fst ` set (plugins m1) \<subseteq> fst ` set (plugins (snd ob)) \<and>
        fst ` set (plugins (snd ob)) \<subseteq> fst ` set (plugins (fst (foldl loadDir (m1, tr1) ds)))"
    "isLoading (fst (foldl loadDir (m1, tr1) ds)) = isLoading m1"
    "fst ` set (plugins m1) \<subseteq> fst ` set (plugins (fst (foldl loadDir (m1, tr1) ds)))"
    by blast
  let ?mf = "fst (foldl loadDir (m1, tr1) ds)"
  have fin: "foldl loadDir (m, tr) (d # ds) = foldl loadDir (m1, tr1) ds"
    using step by simp
  have "snd (foldl loadDir (m1, tr1) ds) = tr @ (e1 @ e2)"
    using e1(1) e2(1) by simp
  moreover have "\<forall>ob \<in> set (e1 @ e2).
        (\<exists>p. fst ob = InitHook p) \<and> isLoading (snd ob) = isLoading m \<and>
        fst ` set (plugins m) \<subseteq> fst ` set (plugins (snd ob)) \<and>
        fst ` set (plugins (snd ob)) \<subseteq> fst ` set (plugins ?mf)"
  proof
    fix ob assume "ob \<in> set (e1 @ e2)"
    then consider "ob \<in> set e1" | "ob \<in> set e2" by auto
    then show "(\<exists>p. fst ob = InitHook p) \<and> isLoading (snd ob) = isLoading m \<and>
        fst ` set (plugins m) \<subseteq> fst ` set (plugins (snd ob)) \<and>
        fst ` set (plugins (snd ob)) \<subseteq> fst ` set (plugins ?mf)"
    proof cases
      case 1
      with e1(2) have "\<exists>p. fst ob = InitHook p" and "snd ob = m1" by blast+
      then show ?thesis using keys load e2(4) by simp
    next
      case 2
      with e2(2) have "\<exists>p. fst ob = InitHook p" and "isLoading (snd ob) = isLoading m1"
        and "fst ` set (plugins m1) \<subseteq> fst ` set (plugins (snd ob))"
        and "fst ` set (plugins (snd ob)) \<subseteq> fst ` set (plugins ?mf)" by blast+
      then show ?thesis using keys load by (simp add: subset_trans [OF keys])
    qed
  qed
  moreover have "isLoading ?mf = isLoading m"
    using e2(3) load by simp
  moreover have "fst ` set (plugins m) \<subseteq> fst ` set (plugins ?mf)"
    using e2(4) keys by (rule_tac subset_trans)
  ultimately show ?case unfolding fin by blast
qed

lemma loadDirs_lookup_unchanged:
  "(\<forall>d \<in> set ds. \<forall>p ts. resolve d = Some (p, ts) \<longrightarrow> t \<notin> set ts) \<Longrightarrow>
   map_of (plugins (fst (foldl loadDir (m, tr) ds))) t = map_of (plugins m) t"
proof (induction ds arbitrary: m tr)
  case Nil
  then show ?case by simp
next
  case (Cons d ds)
  obtain m1 tr1 where step: "loadDir (m, tr) d = (m1, tr1)" by (cases "loadDir (m, tr) d")
  have "map_of (plugins m1) t = map_of (plugins m) t"
    using step Cons.prems by (auto simp: loadDir_cases register_lookup split: option.splits)
  moreover have "map_of (plugins (fst (foldl loadDir (m1, tr1) ds))) t = map_of (plugins m1) t"
    using Cons.IH [of m1 tr1] Cons.prems by simp
  ultimately show ?case using step by simp
qed

lemma loadDirs_default_unchanged:
  "(\<forall>d \<in> set ds. \<forall>p ts. resolve d = Some (p, ts) \<longrightarrow> ''default'' \<notin> set ts) \<Longrightarrow>
   defaultPlugin (fst (foldl loadDir (m, tr) ds)) = defaultPlugin m"
proof (induction ds arbitrary: m tr)
  case Nil
  then show ?case by simp
next
  case (Cons d ds)
  obtain m1 tr1 where step: "loadDir (m, tr) d = (m1, tr1)" by (cases "loadDir (m, tr) d")
  have "defaultPlugin m1 = defaultPlugin m"
    using step Cons.prems by (auto simp: loadDir_cases register_default split: option.splits)
  moreover have "defaultPlugin (fst (foldl loadDir (m1, tr1) ds)) = defaultPlugin m1"
    using Cons.IH [of m1 tr1] Cons.prems by simp
  ultimately show ?case using step by simp
qed

lemma loadDirs_last_declaring:
  assumes "resolve d = Some (p, ts)"
  shows "t \<in> set ts \<Longrightarrow> t \<noteq> ''default'' \<Longrightarrow>
         (\<forall>d' \<in> set zs. \<forall>q us. resolve d' = Some (q, us) \<longrightarrow> t \<notin> set us) \<Longrightarrow>
         map_of (plugins (fst (foldl loadDir (m, tr) (xs @ d # zs)))) t = Some p"
    and "''default'' \<in> set ts \<Longrightarrow>
         (\<forall>d' \<in> set zs. \<forall>q us. resolve d' = Some (q, us) \<longrightarrow> ''default'' \<notin> set us) \<Longrightarrow>
         defaultPlugin (fst (foldl loadDir (m, tr) (xs @ d # zs))) = Some p"
proof -
  obtain m0 tr0 where pre: "foldl loadDir (m, tr) xs = (m0, tr0)"
    by (cases "foldl loadDir (m, tr) xs")
  obtain m1 tr1 where step: "loadDir (m0, tr0) d = (m1, tr1)" by (cases "loadDir (m0, tr0) d")
  have all: "foldl loadDir (m, tr) (xs @ d # zs) = foldl loadDir (m1, tr1) zs"
    using pre step by simp
  have m1: "m1 = foldl (register p) m0 ts"
    using step assms by (simp add: loadDir_cases)
  show "map_of (plugins (fst (foldl loadDir (m, tr) (xs @ d # zs)))) t = Some p"
    if "t \<in> set ts" "t \<noteq> ''default''"
      "\<forall>d' \<in> set zs. \<forall>q us. resolve d' = Some (q, us) \<longrightarrow> t \<notin> set us"
    unfolding all using that loadDirs_lookup_unchanged [of zs t m1 tr1]
    by (simp add: m1 register_lookup)
  show "defaultPlugin (fst (foldl loadDir (m, tr) (xs @ d # zs))) = Some p"
    if "''default'' \<in> set ts"
      "\<forall>d' \<in> set zs. \<forall>q us. resolve d' = Some (q, us) \<longrightarrow> ''default'' \<notin> set us"
    unfolding all using that loadDirs_default_unchanged [of zs m1 tr1]
    by (simp add: m1 register_default)
qed

lemma loadDirs_init_called:
  "d \<in> set ds \<Longrightarrow> resolve d = Some (p, ts) \<Longrightarrow> p_init p \<noteq> None \<Longrightarrow>
   InitHook p \<in> fst ` set (snd (foldl loadDir (m, tr) ds))"
proof (induction ds arbitrary: m tr)
  case Nil
  then show ?case by simp
next
  case (Cons d' ds)
  obtain m1 tr1 where step: "loadDir (m, tr) d' = (m1, tr1)" by (cases "loadDir (m, tr) d'")
  show ?case
  proof (cases "d = d'")
    case True
    with step Cons.prems have "InitHook p \<in> fst ` set tr1"
      by (auto simp: loadDir_cases)
    moreover obtain ext where "snd (foldl loadDir (m1, tr1) ds) = tr1 @ ext"
      using loadDirs_trace [of m1 tr1 ds] by blast
    ultimately show ?thesis using step by auto
  next
    case False
    with Cons.prems have "d \<in> set ds" by simp
    from Cons.IH [OF this Cons.prems(2,3), of m1 tr1] step show ?thesis by simp
  qed
qed

lemma loadDirs_no_default_key:
  "''default'' \<notin> fst ` set (plugins m) \<Longrightarrow>
   ''default'' \<notin> fst ` set (plugins (fst (foldl loadDir (m, tr) ds)))"
proof (induction ds arbitrary: m tr)
  case Nil
  then show ?case by simp
next
  case (Cons d ds)
  obtain m1 tr1 where step: "loadDir (m, tr) d = (m1, tr1)" by (cases "loadDir (m, tr) d")
  have "''default'' \<notin> fst ` set (plugins m1)"
  proof (cases "resolve d")
    case None
    with step Cons.prems show ?thesis by (simp add: loadDir_cases)
  next
    case (Some pt)
    with step have "m1 = foldl (register (fst pt)) m (snd pt)"
      by (cases pt) (simp add: loadDir_cases)
    with Cons.prems show ?thesis by (simp add: register_keys)
  qed
  from Cons.IH [OF this, of tr1] step show ?case by simp
qed

lemma loadDirs_distinct:
  "distinct (map fst (plugins m)) \<Longrightarrow>
   distinct (map fst (plugins (fst (foldl loadDir (m, tr) ds))))"
proof (induction ds arbitrary: m tr)
  case Nil
  then show ?case by simp
next
  case (Cons d ds)
  obtain m1 tr1 where step: "loadDir (m, tr) d = (m1, tr1)" by (cases "loadDir (m, tr) d")
  have "distinct (map fst (plugins m1))"
  proof (cases "resolve d")
    case None
    with step Cons.prems show ?thesis by (simp add: loadDir_cases)
  next
    case (Some pt)
    with step have "m1 = foldl (register (fst pt)) m (snd pt)"
      by (cases pt) (simp add: loadDir_cases)
    with Cons.prems show ?thesis by (simp add: register_distinct)
  qed
  from Cons.IH [OF this, of tr1] step show ?case by simp
qed

text \<open>\<open>loadPlugins\<close> in terms of its loop.\<close>

lemma loadPlugins_unfold:
  assumes "\<not> isLoading m" and "extractPlugins clock readdir fs = Some l"
  shows "loadPlugins clock readdir (m, fs) =
           (((fst (foldl loadDir (m\<lparr>isLoading := True, plugins := [], defaultPlugin := None\<rparr>,
                                  cleanup (m\<lparr>isLoading := True\<rparr>)) (pluginDirs readdir l)))
               \<lparr>isLoading := False\<rparr>, Some l),
            snd (foldl loadDir (m\<lparr>isLoading := True, plugins := [], defaultPlugin := None\<rparr>,
                                cleanup (m\<lparr>isLoading := True\<rparr>)) (pluginDirs readdir l)))"
  using assms by (simp add: loadPlugins_def Let_def split: prod.splits)

lemma extractPlugins_Some: "\<exists>l. extractPlugins clock readdir fs = Some l"
  by (cases fs) (simp_all add: extractPlugins_def)

text \<open>The type map a load ends with has unique keys, as a \<open>Map\<close> has.\<close>

lemma loadPlugins_distinct:
  assumes "\<not> isLoading m"
  shows "distinct (map fst (plugins (fst (fst (loadPlugins clock readdir (m, fs))))))"
proof -
  obtain l where l: "extractPlugins clock readdir fs = Some l" using extractPlugins_Some by blast
  show ?thesis
    unfolding loadPlugins_unfold [OF assms l]
    using loadDirs_distinct
            [of "m\<lparr>isLoading := True, plugins := [], defaultPlugin := None\<rparr>"
               "cleanup (m\<lparr>isLoading := True\<rparr>)" "pluginDirs readdir l"]
    by simp
qed

lemma loadPlugins_busy: "isLoading m \<Longrightarrow> loadPlugins clock readdir (m, fs) = ((m, fs), [])"
  by (simp add: loadPlugins_def)

lemma cleanup_observes:
  "ob \<in> set (cleanup m) \<Longrightarrow> (\<exists>p. fst ob = CleanupHook p) \<and> snd ob = m"
  by (auto simp: cleanup_def cleanupPlugin_def split: option.splits)

lemma loadPlugins_trace:
  assumes "\<not> isLoading m"
  shows "\<exists>inits. snd (loadPlugins clock readdir (m, fs)) = cleanup (m\<lparr>isLoading := True\<rparr>) @ inits \<and>
           (\<forall>ob \<in> set inits.
              (\<exists>p. fst ob = InitHook p) \<and> isLoading (snd ob) \<and>
              fst ` set (plugins (snd ob)) \<subseteq>
                fst ` set (plugins (fst (fst (loadPlugins clock readdir (m, fs))))))"
proof -
  obtain l where l: "extractPlugins clock readdir fs = Some l" using extractPlugins_Some by blast
  let ?m2 = "m\<lparr>isLoading := True, plugins := [], defaultPlugin := None\<rparr>"
  let ?tr = "cleanup (m\<lparr>isLoading := True\<rparr>)"
  from loadDirs_trace [of ?m2 ?tr "pluginDirs readdir l"] obtain ext where
    ext: "snd (foldl loadDir (?m2, ?tr) (pluginDirs readdir l)) = ?tr @ ext"
      "\<forall>ob \<in> set ext.
        (\<exists>p. fst ob = InitHook p) \<and> isLoading (snd ob) = isLoading ?m2 \<and>
        fst ` set (plugins ?m2) \<subseteq> fst ` set (plugins (snd ob)) \<and>
        fst ` set (plugins (snd ob)) \<subseteq>
          fst ` set (plugins (fst (foldl loadDir (?m2, ?tr) (pluginDirs readdir l))))"
    by blast
  have "snd (loadPlugins clock readdir (m, fs)) = ?tr @ ext"
    using ext(1) by (simp add: loadPlugins_unfold [OF assms l])
  moreover have "\<forall>ob \<in> set ext.
              (\<exists>p. fst ob = InitHook p) \<and> isLoading (snd ob) \<and>
              fst ` set (plugins (snd ob)) \<subseteq>
                fst ` set (plugins (fst (fst (loadPlugins clock readdir (m, fs)))))"
    using ext(2) by (simp add: loadPlugins_unfold [OF assms l])
  ultimately show ?thesis by blast
qed

lemma loading_observed:
  "ob \<in> set (snd (loadPlugins clock readdir (m, fs))) \<Longrightarrow> isLoading (snd ob)"
proof (cases "isLoading m")
  case True
  assume "ob \<in> set (snd (loadPlugins clock readdir (m, fs)))"
  with True show ?thesis by (simp add: loadPlugins_busy)
next
  case False
  assume a: "ob \<in> set (snd (loadPlugins clock readdir (m, fs)))"
  from loadPlugins_trace [OF False, of clock readdir fs] obtain inits where
    t: "snd (loadPlugins clock readdir (m, fs)) = cleanup (m\<lparr>isLoading := True\<rparr>) @ inits"
    and i: "\<forall>ob \<in> set inits. isLoading (snd ob)" by blast
  from a t consider "ob \<in> set (cleanup (m\<lparr>isLoading := True\<rparr>))" | "ob \<in> set inits" by auto
  then show ?thesis
  proof cases
    case 1
    then have "snd ob = m\<lparr>isLoading := True\<rparr>" using cleanup_observes by blast
    then show ?thesis by simp
  next
    case 2
    with i show ?thesis by blast
  qed
qed

text \<open>The examples, evaluated.\<close>

lemma resolve_installed: "p_main p \<noteq> None \<Longrightarrow> resolve (installed p ts) = Some (p, ts)"
  by (simp add: resolve_def installed_def)

lemma example_mains:
  "p_main chat_v1 \<noteq> None" "p_main chat_v2 \<noteq> None" "p_main helper \<noteq> None"
  by (simp_all add: chat_v1_def chat_v2_def helper_def)

lemma example_inits:
  "p_init chat_v1 \<noteq> None" "p_init chat_v2 \<noteq> None" "p_init helper \<noteq> None"
  by (simp_all add: chat_v1_def chat_v2_def helper_def)

lemma serving_idle: "\<not> isLoading serving"
  by (simp add: serving_def new_PluginManager_def)

lemma extract_disk: "extractPlugins clock0 listed (Some disk) = Some disk"
  by (simp add: extractPlugins_def zipFiles_def listed_def shelf_def disk_def endsWith_def)

lemma dirs_disk:
  "pluginDirs listed disk = [installed chat_v2 [''chat''], installed helper [''help'', ''default'']]"
  by (simp add: pluginDirs_def listed_def shelf_def disk_def)

lemma cleanup_serving:
  "cleanup (serving\<lparr>isLoading := True\<rparr>) = [(CleanupHook chat_v1, serving\<lparr>isLoading := True\<rparr>)]"
  by (simp add: cleanup_def cleanupPlugin_def serving_def new_PluginManager_def chat_v1_def)

lemma reload_serving:
  "loadPlugins clock0 listed (serving, Some disk) =
     ((new_PluginManager\<lparr>plugins := [(''chat'', chat_v2), (''help'', helper)],
         defaultPlugin := Some helper\<rparr>, Some disk),
      [(CleanupHook chat_v1, serving\<lparr>isLoading := True\<rparr>),
       (InitHook chat_v2,
        new_PluginManager\<lparr>plugins := [(''chat'', chat_v2)], isLoading := True\<rparr>),
       (InitHook helper,
        new_PluginManager\<lparr>plugins := [(''chat'', chat_v2), (''help'', helper)],
          defaultPlugin := Some helper, isLoading := True\<rparr>)])"
  unfolding loadPlugins_unfold [OF serving_idle extract_disk] dirs_disk
  by (simp add: cleanup_serving loadDir_cases resolve_installed example_mains example_inits
      register_def)
     (simp add: serving_def new_PluginManager_def)

lemma holder_snoc:
  "holder t (rs @ [r]) = (if t \<in> set (snd r) then Some (fst r) else holder t rs)"
  by (induction rs) (auto split: option.splits)

lemma built_Nil: "built [] = ((\<lambda>t. None), None)"
  by (simp add: built_def fun_eq_iff)

lemma view_register:
  "view m = built done \<Longrightarrow> view (foldl (register p) m ts) = built (done @ [(p, ts)])"
  by (auto simp: view_def built_def register_lookup register_default holder_snoc fun_eq_iff)

lemma loadDirs_waits:
  "view m = built done \<Longrightarrow> isLoading m \<Longrightarrow>
   map glimpse (snd (foldl loadDir (m, tr) ds)) =
     map glimpse tr @ initWaits done (List.map_filter resolve ds) \<and>
   view (fst (foldl loadDir (m, tr) ds)) = built (done @ List.map_filter resolve ds) \<and>
   isLoading (fst (foldl loadDir (m, tr) ds))"
proof (induction ds arbitrary: m tr "done")
  case Nil
  then show ?case by (simp add: List.map_filter_simps)
next
  case (Cons d ds)
  show ?case
  proof (cases "resolve d")
    case None
    then have "loadDir (m, tr) d = (m, tr)" by (simp add: loadDir_cases)
    with None Cons.IH [OF Cons.prems, of tr] show ?thesis
      by (simp add: List.map_filter_simps)
  next
    case (Some r)
    obtain p ts where r: "r = (p, ts)" by (cases r)
    let ?m1 = "foldl (register p) m ts"
    let ?tr1 = "tr @ (if p_init p = None then [] else [(InitHook p, ?m1)])"
    have step: "loadDir (m, tr) d = (?m1, ?tr1)"
      using Some r by (simp add: loadDir_cases)
    have v: "view ?m1 = built (done @ [(p, ts)])"
      using Cons.prems(1) by (rule view_register)
    have l: "isLoading ?m1" using Cons.prems(2) by (simp add: register_isLoading)
    have g: "map glimpse (if p_init p = None then [] else [(InitHook p, ?m1)]) =
               (if p_init p = None then [] else [(InitHook p, built (done @ [(p, ts)]), True)])"
      using v l by (simp add: glimpse_def)
    from Cons.IH [OF v l, of ?tr1] show ?thesis
      using Some r by (simp add: step g List.map_filter_simps)
  qed
qed

lemma cleanup_activities: "map fst (cleanup (m\<lparr>isLoading := b\<rparr>)) = map fst (cleanup m)"
proof -
  have "map fst (concat (map (\<lambda>(type, p). cleanupPlugin m1 p) xs)) =
        map fst (concat (map (\<lambda>(type, p). cleanupPlugin m2 p) xs))" for m1 m2 :: manager and xs
    by (induction xs) (auto simp: cleanupPlugin_def split: option.splits)
  then show ?thesis
    by (auto simp: cleanup_def cleanupPlugin_def split: option.splits)
qed

lemma cleanup_glimpse:
  "map glimpse (cleanup m) = map (\<lambda>a. (a, view m, isLoading m)) (map fst (cleanup m))"
proof -
  have "glimpse ob = (fst ob, view m, isLoading m)" if "ob \<in> set (cleanup m)" for ob
    using cleanup_observes [OF that] by (simp add: glimpse_def)
  then show ?thesis by (simp add: comp_def)
qed

lemma view_loading: "view (m\<lparr>isLoading := b\<rparr>) = view m"
  by (simp add: view_def)

text \<open>
  C3, as the code has it. \<open>loadPlugins\<close> has no second generation and no publishing
  step; it works on the live registry. A load that starts (\<open>isLoading\<close> clear) waits, in
  this order and on nothing else: first on the \<open>cleanup\<close> hook of every registration of
  the registry it found that has one (the type map, then the default slot), and at each
  of these waits a dispatch finds that old registry, unchanged; then, for each directory
  of the staged root that resolves to a plugin, in the order of the listing, on the
  \<open>init\<close> hook of that plugin if it has one, and at that wait a dispatch finds the
  registry as filled so far: empty at first, then holding the registrations of the
  plugins resolved up to and including the one whose hook is awaited, a later
  registration of a type replacing an earlier one. \<open>isLoading\<close> is set at every wait. The
  load ends with the registry filled from all the plugins that resolve, and with
  \<open>isLoading\<close> clear.
\<close>

theorem reload_rebuilds_in_place:
  "\<not> isLoading m \<and> extractPlugins clock readdir fs = Some l \<longrightarrow>
     map glimpse (snd (loadPlugins clock readdir (m, fs))) =
       map (\<lambda>a. (a, view m, True)) (map fst (cleanup m)) @
       initWaits [] (resolved readdir l) \<and>
     view (fst (fst (loadPlugins clock readdir (m, fs)))) = built (resolved readdir l) \<and>
     \<not> isLoading (fst (fst (loadPlugins clock readdir (m, fs))))"
proof (intro impI, elim conjE)
  assume n: "\<not> isLoading m" and l: "extractPlugins clock readdir fs = Some l"
  let ?m2 = "m\<lparr>isLoading := True, plugins := [], defaultPlugin := None\<rparr>"
  let ?tr = "cleanup (m\<lparr>isLoading := True\<rparr>)"
  have v: "view ?m2 = built []" by (simp add: view_def built_Nil)
  have c: "map glimpse ?tr = map (\<lambda>a. (a, view m, True)) (map fst (cleanup m))"
    by (simp add: cleanup_glimpse cleanup_activities view_loading)
  from loadDirs_waits [OF v, of ?tr "pluginDirs readdir l"] c
  show "map glimpse (snd (loadPlugins clock readdir (m, fs))) =
       map (\<lambda>a. (a, view m, True)) (map fst (cleanup m)) @
       initWaits [] (resolved readdir l) \<and>
     view (fst (fst (loadPlugins clock readdir (m, fs)))) = built (resolved readdir l) \<and>
     \<not> isLoading (fst (fst (loadPlugins clock readdir (m, fs))))"
    by (simp add: loadPlugins_unfold [OF n l] resolved_def view_loading)
qed

lemma resolved_disk:
  "resolved listed disk = [(chat_v2, [''chat'']), (helper, [''help'', ''default''])]"
  by (simp add: resolved_def dirs_disk List.map_filter_simps resolve_installed example_mains)

lemma cleanup_serving_acts: "map fst (cleanup serving) = [CleanupHook chat_v1]"
  by (simp add: cleanup_def cleanupPlugin_def serving_def new_PluginManager_def chat_v1_def)

text \<open>
  The registry \<open>serving\<close> reloads from \<open>disk\<close>: one wait on the \<open>cleanup\<close> hook of the old
  chat plugin, which still answers \<open>chat\<close>; then the \<open>init\<close> hooks of the new chat plugin
  and of the helper, the first with \<open>chat\<close> registered alone, the second with all three
  registrations.
\<close>

theorem reload_rebuilds_in_place_witness:
  "\<not> isLoading serving \<and> extractPlugins clock0 listed (Some disk) = Some disk \<and>
   resolved listed disk = [(chat_v2, [''chat'']), (helper, [''help'', ''default''])] \<and>
   map fst (map glimpse (snd (loadPlugins clock0 listed (serving, Some disk)))) =
     [CleanupHook chat_v1, InitHook chat_v2, InitHook helper] \<and>
   map (\<lambda>g. fst (fst (snd g)) ''chat'')
       (map glimpse (snd (loadPlugins clock0 listed (serving, Some disk)))) =
     [Some chat_v1, Some chat_v2, Some chat_v2] \<and>
   map (\<lambda>g. fst (fst (snd g)) ''help'')
       (map glimpse (snd (loadPlugins clock0 listed (serving, Some disk)))) =
     [None, None, Some helper] \<and>
   map (\<lambda>g. snd (fst (snd g)))
       (map glimpse (snd (loadPlugins clock0 listed (serving, Some disk)))) =
     [None, None, Some helper]"
proof -
  from reload_rebuilds_in_place [of serving clock0 listed "Some disk" disk]
    serving_idle extract_disk
  have g: "map glimpse (snd (loadPlugins clock0 listed (serving, Some disk))) =
             map (\<lambda>a. (a, view serving, True)) (map fst (cleanup serving)) @
             initWaits [] (resolved listed disk)"
    by simp
  have v: "view serving = (map_of [(''chat'', chat_v1)], None)"
    by (simp add: view_def serving_def new_PluginManager_def)
  show ?thesis
    unfolding g
    by (simp add: serving_idle extract_disk resolved_disk cleanup_serving_acts v built_def
        example_inits)
qed

text \<open>
  C3 as stated fails. In the reload of \<open>serving\<close> from \<open>disk\<close> the \<open>cleanup\<close> hook of the
  old chat plugin is awaited first, before anything of the new registry exists; and
  while the \<open>init\<close> hook of the new chat plugin is pending the live type map holds
  \<open>chat\<close> alone, which is neither the old registry nor the one the load ends with.
\<close>

theorem reload_seen_half_built:
  "map seen (snd (loadPlugins clock0 listed (serving, Some disk))) =
     [(CleanupHook chat_v1, [(''chat'', chat_v1)], None),
      (InitHook chat_v2, [(''chat'', chat_v2)], None),
      (InitHook helper, [(''chat'', chat_v2), (''help'', helper)], Some helper)] \<and>
   plugins (fst (fst (loadPlugins clock0 listed (serving, Some disk)))) =
     [(''chat'', chat_v2), (''help'', helper)] \<and>
   defaultPlugin (fst (fst (loadPlugins clock0 listed (serving, Some disk)))) = Some helper"
  by (simp only: reload_serving) (simp add: seen_def serving_def new_PluginManager_def)

text \<open>
  C9. A \<open>loadPlugins\<close> call that finds \<open>isLoading\<close> set returns at once: the manager and
  the plugin root are as they were, and no hook is awaited. \<open>isLoading\<close> is set at every
  wait of a running load, so a call made at any of them, with whatever the plugin root
  then holds, is dropped in this way.
\<close>

theorem busy_load_is_dropped:
  "(isLoading m \<longrightarrow> loadPlugins clock readdir (m, fs) = ((m, fs), [])) \<and>
   (\<forall>ob \<in> set (snd (loadPlugins clock readdir (m, fs))).
      loadPlugins clock' readdir' (snd ob, fs') = ((snd ob, fs'), []))"
  using loading_observed [of _ clock readdir m fs] by (simp add: loadPlugins_busy)

text \<open>
  A load requested while \<open>serving\<close> is loading, and one requested at each of the three
  waits of its reload from \<open>disk\<close>.
\<close>

theorem busy_load_is_dropped_witness:
  "isLoading (serving\<lparr>isLoading := True\<rparr>) \<and>
   loadPlugins clock0 listed (serving\<lparr>isLoading := True\<rparr>, Some disk) =
     ((serving\<lparr>isLoading := True\<rparr>, Some disk), []) \<and>
   length (snd (loadPlugins clock0 listed (serving, Some disk))) = 3 \<and>
   list_all (\<lambda>ob. loadPlugins clock0 listed (snd ob, Some disk) = ((snd ob, Some disk), []))
     (snd (loadPlugins clock0 listed (serving, Some disk)))"
proof -
  have "length (snd (loadPlugins clock0 listed (serving, Some disk))) = 3"
    by (simp only: reload_serving) simp
  moreover have "isLoading (serving\<lparr>isLoading := True\<rparr>)" by simp
  ultimately show ?thesis
    using busy_load_is_dropped
            [of "serving\<lparr>isLoading := True\<rparr>" clock0 listed "Some disk" clock0 listed
               "Some disk"]
      busy_load_is_dropped [of serving clock0 listed "Some disk" clock0 listed "Some disk"]
    unfolding list_all_iff by blast
qed

text \<open>
  C5. In one load, let two directories of the staged root both resolve to a plugin that
  declares the command type \<open>t\<close> (not \<open>default\<close>), the second later in the order in which
  \<open>readdirSync\<close> lists the root after staging, and let no directory after the second
  declare \<open>t\<close>. Then the load ends with the second plugin registered
  for \<open>t\<close>, and a dispatch of \<open>t\<close> calls its \<open>main\<close>. The \<open>init\<close> hook of each of the two
  plugins that has one was awaited during the load. The key \<open>default\<close> is not in the
  type map; a plugin that declares \<open>default\<close> is in the default slot, the last one to
  declare it.
\<close>

theorem later_plugin_wins:
  assumes "\<not> isLoading m"
    and "extractPlugins clock readdir fs = Some l"
    and "pluginDirs readdir l = xs @ [d1] @ ys @ [d2] @ zs"
    and "resolve d1 = Some (p1, ts1)" and "resolve d2 = Some (p2, ts2)"
    and "t \<in> set ts1" and "t \<in> set ts2" and "t \<noteq> ''default''"
    and "\<forall>d \<in> set zs. \<forall>q us. resolve d = Some (q, us) \<longrightarrow> t \<notin> set us"
  shows "map_of (plugins (fst (fst (loadPlugins clock readdir (m, fs))))) t = Some p2 \<and>
         processMessage (fst (fst (loadPlugins clock readdir (m, fs)))) t c s pr =
           ([MainCall p2 t c s pr],
            case invoke p2 t c s pr of Some r \<Rightarrow> r | None \<Rightarrow> Text plugin_error) \<and>
         (p_init p1 \<noteq> None \<longrightarrow> InitHook p1 \<in> fst ` set (snd (loadPlugins clock readdir (m, fs)))) \<and>
         (p_init p2 \<noteq> None \<longrightarrow> InitHook p2 \<in> fst ` set (snd (loadPlugins clock readdir (m, fs)))) \<and>
         ''default'' \<notin> fst ` set (plugins (fst (fst (loadPlugins clock readdir (m, fs))))) \<and>
         (''default'' \<in> set ts2 \<and>
          (\<forall>d \<in> set zs. \<forall>q us. resolve d = Some (q, us) \<longrightarrow> ''default'' \<notin> set us) \<longrightarrow>
            defaultPlugin (fst (fst (loadPlugins clock readdir (m, fs)))) = Some p2)"
proof -
  let ?m2 = "m\<lparr>isLoading := True, plugins := [], defaultPlugin := None\<rparr>"
  let ?tr = "cleanup (m\<lparr>isLoading := True\<rparr>)"
  let ?ds = "xs @ [d1] @ ys @ [d2] @ zs"
  let ?end = "foldl loadDir (?m2, ?tr) ?ds"
  have u: "loadPlugins clock readdir (m, fs) = (((fst ?end)\<lparr>isLoading := False\<rparr>, Some l), snd ?end)"
    using loadPlugins_unfold [OF assms(1,2)] assms(3) by simp
  have split: "?ds = (xs @ [d1] @ ys) @ d2 # zs" by simp
  have look: "map_of (plugins (fst ?end)) t = Some p2"
    unfolding split using assms(7,8,9) by (rule loadDirs_last_declaring(1) [OF assms(5)])
  have dflt: "defaultPlugin (fst ?end) = Some p2"
    if "''default'' \<in> set ts2"
      "\<forall>d \<in> set zs. \<forall>q us. resolve d = Some (q, us) \<longrightarrow> ''default'' \<notin> set us"
    unfolding split using that by (rule loadDirs_last_declaring(2) [OF assms(5)])
  have i1: "InitHook p1 \<in> fst ` set (snd ?end)" if "p_init p1 \<noteq> None"
    using loadDirs_init_called [of d1 ?ds p1 ts1 ?m2 ?tr] assms(4) that by simp
  have i2: "InitHook p2 \<in> fst ` set (snd ?end)" if "p_init p2 \<noteq> None"
    using loadDirs_init_called [of d2 ?ds p2 ts2 ?m2 ?tr] assms(5) that by simp
  have nd: "''default'' \<notin> fst ` set (plugins (fst ?end))"
    by (rule loadDirs_no_default_key) simp
  show ?thesis
    unfolding u using look dflt i1 i2 nd by (simp add: processMessage_def)
qed

lemma staged_two_chats:
  "extractPlugins clock0 listed (Some two_chats) =
     Some ((two_chats(''chat_v1'' \<mapsto> Directory (installed chat_v1 [''chat''])))
             (''v1.zip'' := None))"
  by (simp add: extractPlugins_def zipFiles_def listed_def shelf_def two_chats_def endsWith_def
      extractZip_def v1_zip_def topLevelDirs_def setAdd_def firstSegment_def existsSync_def
      extractAllTo_def extractTop_def written_def unlinkSync_def)

lemma dirs_two_chats:
  "pluginDirs listed
     ((two_chats(''chat_v1'' \<mapsto> Directory (installed chat_v1 [''chat''])))(''v1.zip'' := None)) =
   [] @ [installed chat_v1 [''chat'']] @ [] @ [installed chat_v2 [''chat'', ''default'']] @ []"
  by (simp add: pluginDirs_def listed_def shelf_def two_chats_def)

text \<open>
  A load from \<open>two_chats\<close>: the archive is staged into the directory \<open>chat_v1\<close>, which
  the listing then puts before \<open>chat_v2\<close>; both declare \<open>chat\<close>, and the second chat
  plugin answers it and is the default plugin. The \<open>init\<close> hook of the first fails and
  was awaited all the same.
\<close>

theorem later_plugin_wins_witness:
  "\<not> isLoading new_PluginManager \<and>
   lookups (extractPlugins clock0 listed (Some two_chats)) [''chat_v1'', ''chat_v2'', ''v1.zip''] =
     [Some (Directory (installed chat_v1 [''chat''])),
      Some (Directory (installed chat_v2 [''chat'', ''default''])), None] \<and>
   resolve (installed chat_v1 [''chat'']) = Some (chat_v1, [''chat'']) \<and>
   resolve (installed chat_v2 [''chat'', ''default'']) = Some (chat_v2, [''chat'', ''default'']) \<and>
   p_init chat_v1 = Some Fails \<and>
   map_of (plugins (fst (fst (loadPlugins clock0 listed (new_PluginManager, Some two_chats)))))
       ''chat'' = Some chat_v2 \<and>
   processMessage (fst (fst (loadPlugins clock0 listed (new_PluginManager, Some two_chats))))
       ''chat'' ''hi'' None False =
     ([MainCall chat_v2 ''chat'' ''hi'' None False], Text ''v2'') \<and>
   InitHook chat_v1 \<in>
     fst ` set (snd (loadPlugins clock0 listed (new_PluginManager, Some two_chats))) \<and>
   InitHook chat_v2 \<in>
     fst ` set (snd (loadPlugins clock0 listed (new_PluginManager, Some two_chats))) \<and>
   defaultPlugin (fst (fst (loadPlugins clock0 listed (new_PluginManager, Some two_chats)))) =
     Some chat_v2"
proof -
  have a: "\<not> isLoading new_PluginManager" by (simp add: new_PluginManager_def)
  have k: "lookups (extractPlugins clock0 listed (Some two_chats))
             [''chat_v1'', ''chat_v2'', ''v1.zip''] =
           [Some (Directory (installed chat_v1 [''chat''])),
            Some (Directory (installed chat_v2 [''chat'', ''default''])), None]"
    by (simp only: staged_two_chats) (simp add: lookups_def two_chats_def)
  have d: "resolve (installed chat_v1 [''chat'']) = Some (chat_v1, [''chat''])"
    "resolve (installed chat_v2 [''chat'', ''default'']) = Some (chat_v2, [''chat'', ''default''])"
    by (simp_all add: resolve_installed example_mains)
  have e: "p_init chat_v1 = Some Fails" by (simp add: chat_v1_def)
  have f: "invoke chat_v2 ''chat'' ''hi'' None False = Some (Text ''v2'')"
    by (simp add: invoke_def chat_v2_def)
  have g: "\<forall>d \<in> set []. \<forall>q us. resolve d = Some (q, us) \<longrightarrow> ''chat'' \<notin> set us" by simp
  from later_plugin_wins [OF a staged_two_chats dirs_two_chats d,
         of "''chat''" "''hi''" None False, OF _ _ _ g]
  show ?thesis using a k d e f example_inits by simp
qed

subsection \<open>Discover and stage\<close>






























subsection \<open>Watch\<close>

lemma notify_within:
  assumes "relevant (filename c) (found c)"
    and "case reloadDebounce m of None \<Rightarrow> True | Some d \<Rightarrow> at_ms c < d"
  shows "notify (m, r) c = (m\<lparr>reloadDebounce := Some (at_ms c + 1000)\<rparr>, r)"
  using assms by (auto simp: notify_def fireDue_def watchCallback_def split: option.splits)

lemma burst_pending:
  assumes "cs \<noteq> []"
    and "\<forall>c \<in> set cs. relevant (filename c) (found c) \<and> lo \<le> at_ms c \<and> at_ms c < lo + 1000"
    and "case reloadDebounce m of None \<Rightarrow> True | Some d \<Rightarrow> lo + 1000 \<le> d"
  shows "foldl notify (m, r) cs = (m\<lparr>reloadDebounce := Some (at_ms (last cs) + 1000)\<rparr>, r)"
  using assms
proof (induction cs arbitrary: m)
  case Nil
  then show ?case by simp
next
  case (Cons c cs)
  have c: "relevant (filename c) (found c)" "lo \<le> at_ms c" "at_ms c < lo + 1000"
    using Cons.prems(2) by simp_all
  have "case reloadDebounce m of None \<Rightarrow> True | Some d \<Rightarrow> at_ms c < d"
    using Cons.prems(3) c(3) by (auto split: option.splits)
  from notify_within [OF c(1) this]
  have step: "notify (m, r) c = (m\<lparr>reloadDebounce := Some (at_ms c + 1000)\<rparr>, r)" .
  show ?case
  proof (cases "cs = []")
    case True
    with step show ?thesis by simp
  next
    case False
    have "foldl notify (m\<lparr>reloadDebounce := Some (at_ms c + 1000)\<rparr>, r) cs =
            (m\<lparr>reloadDebounce := Some (at_ms c + 1000)\<rparr>
              \<lparr>reloadDebounce := Some (at_ms (last cs) + 1000)\<rparr>, r)"
      using Cons.prems(2) c(2) by (intro Cons.IH [OF False]) simp_all
    with step False show ?thesis by simp
  qed
qed

text \<open>
  C6, as the code has it. A notification is relevant when it reports a file name,
  something exists under that name when the callback runs, and that is a directory or
  the name ends in \<open>.zip\<close>. For a burst of one or more relevant notifications, in order
  of arrival and all within the debounce window of 1000 ms, with no timer pending
  before, the timer callback has called \<open>reloadPlugins\<close> exactly once as of any time at
  or after 1000 ms past the last notification, and not at all before that.
\<close>

theorem burst_reloads_once:
  assumes "cs \<noteq> []"
    and "\<forall>c \<in> set cs. relevant (filename c) (found c)"
    and "sorted (map at_ms cs)"
    and "at_ms (last cs) < at_ms (hd cs) + 1000"
    and "reloadDebounce m = None"
  shows "reloadsBy horizon cs m = (if at_ms (last cs) + 1000 \<le> horizon then 1 else 0)"
proof -
  have lo: "at_ms (hd cs) \<le> at_ms c" if "c \<in> set cs" for c
    using assms(1,3) that by (cases cs) auto
  have hi: "at_ms c \<le> at_ms (last cs)" if "c \<in> set cs" for c
  proof -
    from that obtain i where i: "i < length cs" "cs ! i = c" by (auto simp: in_set_conv_nth)
    then have "map at_ms cs ! i \<le> map at_ms cs ! (length cs - 1)"
      using assms(3) by (intro sorted_nth_mono) auto
    then show ?thesis using i assms(1) by (simp add: last_conv_nth)
  qed
  have "\<forall>c \<in> set cs. relevant (filename c) (found c) \<and> at_ms (hd cs) \<le> at_ms c \<and>
          at_ms c < at_ms (hd cs) + 1000"
    using assms(2,4) lo hi by (meson le_less_trans)
  from burst_pending [OF assms(1) this, of m 0] assms(5)
  have "foldl notify (m, 0) cs = (m\<lparr>reloadDebounce := Some (at_ms (last cs) + 1000)\<rparr>, 0)"
    by simp
  then show ?thesis by (simp add: reloadsBy_def fireDue_def)
qed

text \<open>
  The three changes of \<open>burst\<close> (at 0, 120 and 480 ms): no reload by 1479 ms, one by
  1480 ms, still one much later.
\<close>

theorem burst_reloads_once_witness:
  "burst \<noteq> [] \<and> list_all (\<lambda>c. relevant (filename c) (found c)) burst \<and>
   sorted (map at_ms burst) \<and> at_ms (last burst) < at_ms (hd burst) + 1000 \<and>
   reloadDebounce new_PluginManager = None \<and>
   reloadsBy 1479 burst new_PluginManager = 0 \<and>
   reloadsBy 1480 burst new_PluginManager = 1 \<and>
   reloadsBy 3600000 burst new_PluginManager = 1"
proof -
  have a: "burst \<noteq> []" "sorted (map at_ms burst)"
    "at_ms (last burst) < at_ms (hd burst) + 1000" "at_ms (last burst) = 480"
    by (simp_all add: burst_def)
  have b: "\<forall>c \<in> set burst. relevant (filename c) (found c)"
    by (simp add: burst_def relevant_def endsWith_def)
  have c: "reloadDebounce new_PluginManager = None" by (simp add: new_PluginManager_def)
  from burst_reloads_once [OF a(1) b a(2,3) c] a b c show ?thesis
    by (simp add: list_all_iff)
qed

text \<open>
  C6 as stated fails for a notification that names an archive no longer there (the
  one that follows the deletion of a consumed archive): the callback finds nothing
  under the name and sets no timer, so no reload follows.
\<close>

theorem vanished_archive_no_reload:
  "removal = [\<lparr>at_ms = 0, filename = Some ''update.zip'', found = None\<rparr>] \<and>
   reloadsBy 3600000 removal new_PluginManager = 0"
  by (simp add: removal_def reloadsBy_def notify_def fireDue_def watchCallback_def
      relevant_def new_PluginManager_def)

end
